theory Spec2Isabelle
  imports Main "HOL-Library.Sublist" "HOL-Library.AList"
begin

section \<open>JavaScript values, strings and thrown errors\<close>

text \<open>
  The router (\<^verbatim>\<open>src/utils/router.ts\<close>) receives the request body as parsed JSON and
  declares most of it as \<^verbatim>\<open>any\<close>.  The parts of the body whose shape the code inspects
  at run time (\<^verbatim>\<open>messages\<close>, \<^verbatim>\<open>system\<close>, \<^verbatim>\<open>tools\<close>, \<^verbatim>\<open>thinking\<close>, the bearer token) are
  therefore modelled as JSON values.  Numbers are the integral ones; an object is an
  association list whose first binding of a key is the effective one.  A string is a
  list of code units, and the code units are those of one byte, U+0000 to U+00FF
  (the type \<open>char\<close>).
\<close>

datatype jsval =
    Undefined
  | Null
  | Bool bool
  | Num int
  | Str string
  | Arr "jsval list"
  | Obj "(string \<times> jsval) list"

text \<open>A thrown exception is a value of type \<open>error\<close>; a computation that may throw
  returns \<open>error + 'a\<close> with \<open>Inl\<close> for the exception.\<close>

datatype error = TypeError | IOError | CustomRouterFailure | TokenizerFailure

definition bindE :: "error + 'a \<Rightarrow> ('a \<Rightarrow> error + 'b) \<Rightarrow> error + 'b" where
  "bindE m f = (case m of Inl e \<Rightarrow> Inl e | Inr v \<Rightarrow> f v)"

text \<open>Truthiness (\<^verbatim>\<open>if (x)\<close>, \<^verbatim>\<open>x && y\<close>, \<^verbatim>\<open>!x\<close>).\<close>

fun truthy :: "jsval \<Rightarrow> bool" where
  "truthy Undefined = False"
| "truthy Null = False"
| "truthy (Bool b) = b"
| "truthy (Num n) = (n \<noteq> 0)"
| "truthy (Str s) = (s \<noteq> [])"
| "truthy (Arr xs) = True"
| "truthy (Obj kvs) = True"

fun nullish :: "jsval \<Rightarrow> bool" where
  "nullish Undefined = True"
| "nullish Null = True"
| "nullish v = False"

fun is_string :: "jsval \<Rightarrow> bool" where
  "is_string (Str s) = True"
| "is_string v = False"

fun isArray :: "jsval \<Rightarrow> bool" where
  "isArray (Arr xs) = True"
| "isArray v = False"

text \<open>Property read \<^verbatim>\<open>v.p\<close>: a \<^verbatim>\<open>TypeError\<close> on \<^verbatim>\<open>undefined\<close> and \<^verbatim>\<open>null\<close>; on a string or
  an array only \<^verbatim>\<open>length\<close> is a data property that the router reads.\<close>

fun get_prop :: "jsval \<Rightarrow> string \<Rightarrow> error + jsval" where
  "get_prop Undefined p = Inl TypeError"
| "get_prop Null p = Inl TypeError"
| "get_prop (Obj kvs) p = Inr (case map_of kvs p of None \<Rightarrow> Undefined | Some v \<Rightarrow> v)"
| "get_prop (Str s) p = Inr (if p = ''length'' then Num (int (length s)) else Undefined)"
| "get_prop (Arr xs) p = Inr (if p = ''length'' then Num (int (length xs)) else Undefined)"
| "get_prop v p = Inr Undefined"

text \<open>Optional chaining \<^verbatim>\<open>v?.p\<close>.\<close>

definition opt_prop :: "jsval \<Rightarrow> string \<Rightarrow> jsval" where
  "opt_prop v p = (case get_prop v p of Inl e \<Rightarrow> Undefined | Inr w \<Rightarrow> w)"

text \<open>Element read \<^verbatim>\<open>v[1]\<close>.\<close>

fun elem1 :: "jsval \<Rightarrow> error + jsval" where
  "elem1 Undefined = Inl TypeError"
| "elem1 Null = Inl TypeError"
| "elem1 (Arr xs) = Inr (if 1 < length xs then xs ! 1 else Undefined)"
| "elem1 (Str s) = Inr (if 1 < length s then Str [s ! 1] else Undefined)"
| "elem1 (Obj kvs) = Inr (case map_of kvs ''1'' of None \<Rightarrow> Undefined | Some v \<Rightarrow> v)"
| "elem1 v = Inr Undefined"

text \<open>The assignment \<^verbatim>\<open>v[1].text = t\<close>, for a \<^verbatim>\<open>v[1]\<close> that is an object (the router
  assigns only after it has read a string or an array from \<^verbatim>\<open>v[1].text\<close>).\<close>

fun set_text :: "jsval \<Rightarrow> jsval \<Rightarrow> jsval" where
  "set_text (Obj kvs) t = Obj (AList.update ''text'' t kvs)"
| "set_text v t = v"

fun set_elem1_text :: "jsval \<Rightarrow> jsval \<Rightarrow> jsval" where
  "set_elem1_text (Arr xs) t = (if 1 < length xs then Arr (xs[1 := set_text (xs ! 1) t]) else Arr xs)"
| "set_elem1_text (Obj kvs) t =
     (case map_of kvs ''1'' of
        None \<Rightarrow> Obj kvs
      | Some v \<Rightarrow> Obj (AList.update ''1'' (set_text v t) kvs))"
| "set_elem1_text v t = v"

subsection \<open>String methods\<close>

definition startsWith :: "string \<Rightarrow> string \<Rightarrow> bool" where
  "startsWith s p = prefix p s"

fun str_includes :: "string \<Rightarrow> string \<Rightarrow> bool" where
  "str_includes [] p = (p = [])"
| "str_includes (c # cs) p = (prefix p (c # cs) \<or> str_includes cs p)"

text \<open>\<open>split_first sep s\<close> cuts \<open>s\<close> at the first occurrence of \<open>sep\<close>: the text before
  it and the text after it.\<close>

fun split_first :: "string \<Rightarrow> string \<Rightarrow> (string \<times> string) option" where
  "split_first sep [] = (if sep = [] then Some ([], []) else None)"
| "split_first sep (c # cs) =
     (if prefix sep (c # cs) then Some ([], drop (length sep) (c # cs))
      else (case split_first sep cs of
              None \<Rightarrow> None
            | Some (a, r) \<Rightarrow> Some (c # a, r)))"

lemma split_first_shorter:
  "split_first sep s = Some (a, r) \<Longrightarrow> sep \<noteq> [] \<Longrightarrow> length r < length s"
proof (induction s arbitrary: a r)
  case Nil
  then show ?case by simp
next
  case (Cons c cs)
  show ?case
  proof (cases "prefix sep (c # cs)")
    case True
    with Cons.prems show ?thesis by (cases sep) auto
  next
    case False
    with Cons.prems obtain a' where "split_first sep cs = Some (a', r)"
      by (auto split: option.splits)
    with Cons.IH Cons.prems(2) show ?thesis by fastforce
  qed
qed

text \<open>\<^verbatim>\<open>s.split(sep)\<close>: cut at every occurrence of the separator, left to right; the
  empty separator cuts between all characters.\<close>

function split :: "string \<Rightarrow> string \<Rightarrow> string list" where
  "split s sep =
     (if sep = [] then map (\<lambda>c. [c]) s
      else (case split_first sep s of
              None \<Rightarrow> [s]
            | Some (a, r) \<Rightarrow> a # split r sep))"
  by pat_completeness auto
termination
  by (relation "measure (\<lambda>(s, sep). length s)") (auto dest: split_first_shorter)

declare split.simps [simp del]

text \<open>\<^verbatim>\<open>s.replace(pat, "")\<close> with a string pattern: the first occurrence is removed.\<close>

definition replace_first :: "string \<Rightarrow> string \<Rightarrow> string" where
  "replace_first s pat = (case split_first pat s of None \<Rightarrow> s | Some (a, r) \<Rightarrow> a @ r)"

text \<open>\<^verbatim>\<open>toLowerCase\<close>.  The upper-case letters below U+0100 are A to Z (U+0041 to U+005A)
  and the letters U+00C0 to U+00DE without the multiplication sign U+00D7; the
  lower-case letter of each is 32 code units further.  Every other code unit below
  U+0100 is unchanged.\<close>

definition lower_char :: "char \<Rightarrow> char" where
  "lower_char c =
     (let n = (of_char c :: nat)
      in if (65 \<le> n \<and> n \<le> 90) \<or> (192 \<le> n \<and> n \<le> 222 \<and> n \<noteq> 215)
         then char_of (n + 32) else c)"

definition toLowerCase :: "string \<Rightarrow> string" where
  "toLowerCase s = map lower_char s"

text \<open>\<^verbatim>\<open>trim\<close>: white space and line terminators are removed at both ends.  Below
  U+0100 these are tab, line feed, vertical tab, form feed, carriage return, space
  and the no-break space U+00A0.\<close>

definition is_space :: "char \<Rightarrow> bool" where
  "is_space c = ((of_char c :: nat) \<in> {9, 10, 11, 12, 13, 32, 160})"

definition trim :: "string \<Rightarrow> string" where
  "trim s = rev (dropWhile is_space (rev (dropWhile is_space s)))"

text \<open>\<open>first_at sep a\<close>: in a string \<open>a @ sep @ r\<close> the occurrence of \<open>sep\<close> that follows \<open>a\<close> is
  the first one, that is, no occurrence of \<open>sep\<close> begins inside \<open>a\<close>.\<close>

definition first_at :: "string \<Rightarrow> string \<Rightarrow> bool" where
  "first_at sep a = (\<not> str_includes (a @ butlast sep) sep)"

section \<open>Configuration, providers and the provider registry\<close>

text \<open>
  Provider entries are objects shared by the whole process: the configuration lists
  hold references to them, and the same object may stand in both lists.  An object
  is named by its address in a store; \<open>None\<close> in a list is a \<^verbatim>\<open>null\<close> entry.
  \<open>static_api_key\<close> and \<open>dynamic_api_key_stack\<close> are the fields \<^verbatim>\<open>_static_api_key\<close> and
  \<^verbatim>\<open>_dynamic_api_key_stack\<close>; the outer \<open>None\<close> of \<open>static_api_key\<close> is \<^verbatim>\<open>undefined\<close>, \<open>Some None\<close>
  is \<^verbatim>\<open>null\<close>.  In the other optional fields \<open>None\<close> is a missing (or \<^verbatim>\<open>null\<close>) field.
\<close>

type_synonym addr = nat

record CredentialOverrideEntry =
  requestId :: nat
  newKey :: string

record provider =
  name :: "string option"
  api_key :: "string option"
  apiKey :: "string option"
  models :: "string list option"
  static_api_key :: "string option option"
  dynamic_api_key_stack :: "CredentialOverrideEntry list option"

type_synonym store = "addr \<Rightarrow> provider"

record RouterConfig =
  default_model :: "string option"
  background :: "string option"
  think :: "string option"
  webSearch :: "string option"
  longContext :: "string option"
  longContextThreshold :: "int option"

record config =
  Router :: "RouterConfig option"
  Providers :: "addr option list option"
  providers :: "addr option list option"
  REWRITE_SYSTEM_PROMPT :: "string option"
  CUSTOM_ROUTER_PATH :: "string option"

record ProviderTarget =
  target_name :: string
  references :: "addr list"
  primary :: addr

text \<open>The callback of \<^verbatim>\<open>providers.forEach\<close> in \<^verbatim>\<open>registerProviders\<close> (lines 80 to 97).  The
  \<^verbatim>\<open>Map\<close> is an association list in insertion order: \<open>AList.update\<close> keeps the place
  of a key that is present and appends a new one, as \<^verbatim>\<open>Map.set\<close> does.\<close>

definition registerProvider ::
  "store \<Rightarrow> addr option \<Rightarrow> (string \<times> ProviderTarget) list \<Rightarrow> (string \<times> ProviderTarget) list"
where
  "registerProvider st entry m =
     (case entry of
        None \<Rightarrow> m
      | Some a \<Rightarrow>
          (case name (st a) of
             None \<Rightarrow> m
           | Some n \<Rightarrow>
               if n = [] then m
               else (case map_of m n of
                       Some existing \<Rightarrow>
                         if a \<in> set (references existing) then m
                         else AList.update n
                                (existing\<lparr>references := references existing @ [a]\<rparr>) m
                     | None \<Rightarrow>
                         AList.update n
                           \<lparr>target_name = n, references = [a], primary = a\<rparr> m)))"

definition registerProviders ::
  "store \<Rightarrow> addr option list option \<Rightarrow> (string \<times> ProviderTarget) list
     \<Rightarrow> (string \<times> ProviderTarget) list"
where
  "registerProviders st ps m =
     (case ps of None \<Rightarrow> m | Some es \<Rightarrow> fold (registerProvider st) es m)"

definition collectProviderTargets :: "store \<Rightarrow> config \<Rightarrow> ProviderTarget list" where
  "collectProviderTargets st cfg =
     map snd (registerProviders st (providers cfg) (registerProviders st (Providers cfg) []))"

text \<open>Notions used to state what the registry computes: the declared entries in the
  order the registry reads them, the name under which an entry is registered, and a
  list without its repeated elements, first occurrences kept.\<close>

definition declared :: "config \<Rightarrow> addr option list" where
  "declared cfg =
     (case Providers cfg of None \<Rightarrow> [] | Some es \<Rightarrow> es) @
     (case providers cfg of None \<Rightarrow> [] | Some es \<Rightarrow> es)"

definition entry_name :: "store \<Rightarrow> addr option \<Rightarrow> string option" where
  "entry_name st entry =
     (case entry of
        None \<Rightarrow> None
      | Some a \<Rightarrow> (case name (st a) of
                     None \<Rightarrow> None
                   | Some n \<Rightarrow> if n = [] then None else Some n))"

definition entries_named :: "store \<Rightarrow> addr option list \<Rightarrow> string \<Rightarrow> addr list" where
  "entries_named st es n = List.map_filter (\<lambda>e. if entry_name st e = Some n then e else None) es"

definition first_seen :: "'a list \<Rightarrow> 'a list" where
  "first_seen xs = rev (remdups (rev xs))"

text \<open>The target the registry builds for a name: every declared entry of that name,
  each object once, in the order first seen; the first of them is the primary.\<close>

definition target_of :: "store \<Rightarrow> addr option list \<Rightarrow> string \<Rightarrow> ProviderTarget" where
  "target_of st es n =
     \<lparr>target_name = n, references = first_seen (entries_named st es n),
      primary = hd (entries_named st es n)\<rparr>"

section \<open>Token estimation\<close>

text \<open>
  Parts of the run-time environment that the source does not define are parameters:
  the tokenizer (\<^verbatim>\<open>enc.encode(x).length\<close>, which may throw), the text that
  \<^verbatim>\<open>JSON.stringify\<close> produces, the text of a number, an array or an object in a
  concatenation, the result of \<^verbatim>\<open>+\<close> when no operand is a string, and the result of \<^verbatim>\<open>>\<close>
  when the left operand is a string, an array or an object.
\<close>

record runtime =
  encode_length :: "jsval \<Rightarrow> error + nat"
  stringify_text :: "jsval \<Rightarrow> string"
  string_coerced :: "jsval \<Rightarrow> string"
  plus_coerced :: "jsval \<Rightarrow> jsval \<Rightarrow> jsval"
  gt_coerced :: "jsval \<Rightarrow> int \<Rightarrow> bool"

text \<open>\<^verbatim>\<open>JSON.stringify(v)\<close> is \<^verbatim>\<open>undefined\<close> for \<^verbatim>\<open>undefined\<close> and a string otherwise.\<close>

definition JSON_stringify :: "runtime \<Rightarrow> jsval \<Rightarrow> jsval" where
  "JSON_stringify rt v = (if v = Undefined then Undefined else Str (stringify_text rt v))"

text \<open>The text of a value in a concatenation: a string is its own text, and
  \<^verbatim>\<open>undefined\<close>, \<^verbatim>\<open>null\<close>, \<^verbatim>\<open>true\<close> and \<^verbatim>\<open>false\<close> are printed as these words.\<close>

definition js_string :: "runtime \<Rightarrow> jsval \<Rightarrow> string" where
  "js_string rt v =
     (case v of
        Str s \<Rightarrow> s
      | Undefined \<Rightarrow> ''undefined''
      | Null \<Rightarrow> ''null''
      | Bool b \<Rightarrow> (if b then ''true'' else ''false'')
      | _ \<Rightarrow> string_coerced rt v)"

text \<open>\<^verbatim>\<open>a + b\<close>: when one of the operands is a string, the result is the concatenation of
  the texts of both; any other pair of operands is coerced.\<close>

definition js_plus :: "runtime \<Rightarrow> jsval \<Rightarrow> jsval \<Rightarrow> jsval" where
  "js_plus rt a b =
     (if is_string a \<or> is_string b then Str (js_string rt a @ js_string rt b)
      else plus_coerced rt a b)"

text \<open>\<^verbatim>\<open>v > n\<close> for an integral number \<open>n\<close>: \<^verbatim>\<open>undefined\<close> is not a number, \<^verbatim>\<open>null\<close> is 0,
  \<^verbatim>\<open>true\<close> is 1 and \<^verbatim>\<open>false\<close> is 0; strings, arrays and objects are coerced.\<close>

definition js_gt :: "runtime \<Rightarrow> jsval \<Rightarrow> int \<Rightarrow> bool" where
  "js_gt rt v n =
     (case v of
        Num k \<Rightarrow> k > n
      | Undefined \<Rightarrow> False
      | Null \<Rightarrow> 0 > n
      | Bool b \<Rightarrow> (if b then 1 else 0) > n
      | _ \<Rightarrow> gt_coerced rt v n)"

text \<open>\<^verbatim>\<open>xs.forEach(x => { tokenCount += f(x) })\<close>: the first element on which the
  callback throws ends the loop with that exception.\<close>

fun sum_tokens :: "('a \<Rightarrow> error + nat) \<Rightarrow> 'a list \<Rightarrow> error + nat" where
  "sum_tokens f [] = Inr 0"
| "sum_tokens f (x # xs) = bindE (f x) (\<lambda>n. bindE (sum_tokens f xs) (\<lambda>m. Inr (n + m)))"

text \<open>Lines 23 to 35: one part of a message whose content is an array.\<close>

definition contentPart_tokens :: "runtime \<Rightarrow> jsval \<Rightarrow> error + nat" where
  "contentPart_tokens rt contentPart =
     bindE (get_prop contentPart ''type'') (\<lambda>ty.
       if ty = Str ''text'' then
         bindE (get_prop contentPart ''text'') (encode_length rt)
       else if ty = Str ''tool_use'' then
         bindE (get_prop contentPart ''input'') (\<lambda>i. encode_length rt (JSON_stringify rt i))
       else if ty = Str ''tool_result'' then
         bindE (get_prop contentPart ''content'') (\<lambda>c.
           encode_length rt (if is_string c then c else JSON_stringify rt c))
       else Inr 0)"

text \<open>Lines 19 to 37: one message.\<close>

definition message_tokens :: "runtime \<Rightarrow> jsval \<Rightarrow> error + nat" where
  "message_tokens rt message =
     bindE (get_prop message ''content'') (\<lambda>content.
       case content of
         Str s \<Rightarrow> encode_length rt content
       | Arr parts \<Rightarrow> sum_tokens (contentPart_tokens rt) parts
       | _ \<Rightarrow> Inr 0)"

text \<open>Lines 42 to 51: one segment of a system prompt that is an array.\<close>

definition system_item_tokens :: "runtime \<Rightarrow> jsval \<Rightarrow> error + nat" where
  "system_item_tokens rt item =
     bindE (get_prop item ''type'') (\<lambda>ty.
       if ty \<noteq> Str ''text'' then Inr 0
       else bindE (get_prop item ''text'') (\<lambda>t.
         case t of
           Str s \<Rightarrow> encode_length rt t
         | Arr textParts \<Rightarrow>
             sum_tokens (\<lambda>textPart. encode_length rt (if truthy textPart then textPart else Str []))
               textParts
         | _ \<Rightarrow> Inr 0))"

text \<open>Lines 54 to 61: one tool declaration.\<close>

definition tool_tokens :: "runtime \<Rightarrow> jsval \<Rightarrow> error + nat" where
  "tool_tokens rt tool =
     bindE (get_prop tool ''description'') (\<lambda>description.
     bindE (if truthy description
            then bindE (get_prop tool ''name'') (\<lambda>nm. encode_length rt (js_plus rt nm description))
            else Inr 0) (\<lambda>a.
     bindE (get_prop tool ''input_schema'') (\<lambda>input_schema.
     bindE (if truthy input_schema then encode_length rt (JSON_stringify rt input_schema)
            else Inr 0) (\<lambda>b.
     Inr (a + b)))))"

text \<open>Lines 12 to 64.  \<^verbatim>\<open>tools.forEach\<close> on a truthy value that is not an array is a call
  of \<^verbatim>\<open>undefined\<close>, a \<^verbatim>\<open>TypeError\<close>.\<close>

definition calculateTokenCount :: "runtime \<Rightarrow> jsval \<Rightarrow> jsval \<Rightarrow> jsval \<Rightarrow> error + nat" where
  "calculateTokenCount rt msgs sys tls =
     bindE (case msgs of Arr ms \<Rightarrow> sum_tokens (message_tokens rt) ms | _ \<Rightarrow> Inr 0) (\<lambda>a.
     bindE (case sys of
              Str s \<Rightarrow> encode_length rt sys
            | Arr items \<Rightarrow> sum_tokens (system_item_tokens rt) items
            | _ \<Rightarrow> Inr 0) (\<lambda>b.
     bindE (if truthy tls
            then (case tls of Arr ts \<Rightarrow> sum_tokens (tool_tokens rt) ts | _ \<Rightarrow> Inl TypeError)
            else Inr 0) (\<lambda>c.
     Inr (a + b + c))))"

subsection \<open>What the token estimator hands to the tokenizer\<close>

text \<open>
  The arguments of the calls of \<^verbatim>\<open>enc.encode\<close> that the estimator makes, in the order of
  the calls, when no call throws.  Lines 23 to 35, one part of a content array: the
  text of a \<^verbatim>\<open>text\<close> part, the printed input of a \<^verbatim>\<open>tool_use\<close> part, the content of a
  \<^verbatim>\<open>tool_result\<close> part (printed unless it is a string), and nothing for another part.
\<close>

definition contentPart_encoded :: "runtime \<Rightarrow> jsval \<Rightarrow> jsval list" where
  "contentPart_encoded rt contentPart =
     (if opt_prop contentPart ''type'' = Str ''text'' then [opt_prop contentPart ''text'']
      else if opt_prop contentPart ''type'' = Str ''tool_use''
      then [JSON_stringify rt (opt_prop contentPart ''input'')]
      else if opt_prop contentPart ''type'' = Str ''tool_result''
      then [if is_string (opt_prop contentPart ''content'') then opt_prop contentPart ''content''
            else JSON_stringify rt (opt_prop contentPart ''content'')]
      else [])"

text \<open>Lines 19 to 37, one message.\<close>

definition message_encoded :: "runtime \<Rightarrow> jsval \<Rightarrow> jsval list" where
  "message_encoded rt message =
     (case opt_prop message ''content'' of
        Str s \<Rightarrow> [Str s]
      | Arr parts \<Rightarrow> concat (map (contentPart_encoded rt) parts)
      | _ \<Rightarrow> [])"

text \<open>Lines 42 to 51, one segment of a system prompt that is an array.\<close>

definition system_item_encoded :: "jsval \<Rightarrow> jsval list" where
  "system_item_encoded item =
     (if opt_prop item ''type'' \<noteq> Str ''text'' then []
      else (case opt_prop item ''text'' of
              Str s \<Rightarrow> [Str s]
            | Arr textParts \<Rightarrow> map (\<lambda>textPart. if truthy textPart then textPart else Str []) textParts
            | _ \<Rightarrow> []))"

text \<open>Lines 54 to 61, one tool declaration.\<close>

definition tool_encoded :: "runtime \<Rightarrow> jsval \<Rightarrow> jsval list" where
  "tool_encoded rt tool =
     (if truthy (opt_prop tool ''description'')
      then [js_plus rt (opt_prop tool ''name'') (opt_prop tool ''description'')] else [])
     @ (if truthy (opt_prop tool ''input_schema'')
        then [JSON_stringify rt (opt_prop tool ''input_schema'')] else [])"

text \<open>Lines 12 to 64: messages, then the system prompt, then the tools.\<close>

definition encoded :: "runtime \<Rightarrow> jsval \<Rightarrow> jsval \<Rightarrow> jsval \<Rightarrow> jsval list" where
  "encoded rt msgs sys tls =
     (case msgs of Arr ms \<Rightarrow> concat (map (message_encoded rt) ms) | _ \<Rightarrow> [])
     @ (case sys of
          Str s \<Rightarrow> [Str s]
        | Arr items \<Rightarrow> concat (map system_item_encoded items)
        | _ \<Rightarrow> [])
     @ (case tls of Arr ts \<Rightarrow> concat (map (tool_encoded rt) ts) | _ \<Rightarrow> [])"

subsection \<open>Inputs on which the token estimator reads no field of a missing value\<close>

text \<open>
  The estimator reads \<^verbatim>\<open>message.content\<close>, \<^verbatim>\<open>contentPart.type\<close>, \<^verbatim>\<open>item.type\<close> and
  \<^verbatim>\<open>tool.description\<close> of every element of the arrays it walks, and calls \<^verbatim>\<open>forEach\<close> on
  tools that are truthy.  A message: not \<^verbatim>\<open>null\<close> or \<^verbatim>\<open>undefined\<close>, and no part of a content
  that is an array is \<^verbatim>\<open>null\<close> or \<^verbatim>\<open>undefined\<close>.
\<close>

definition message_ok :: "jsval \<Rightarrow> bool" where
  "message_ok m =
     (\<not> nullish m
      \<and> (case opt_prop m ''content'' of
            Arr parts \<Rightarrow> list_all (\<lambda>p. \<not> nullish p) parts
          | _ \<Rightarrow> True))"

text \<open>The three arguments: no element of messages, of the system prompt or of the tools
  is \<^verbatim>\<open>null\<close> or \<^verbatim>\<open>undefined\<close>, and tools are falsy or an array.\<close>

definition well_shaped :: "jsval \<Rightarrow> jsval \<Rightarrow> jsval \<Rightarrow> bool" where
  "well_shaped msgs sys tls =
     ((case msgs of Arr ms \<Rightarrow> list_all message_ok ms | _ \<Rightarrow> True)
      \<and> (case sys of Arr items \<Rightarrow> list_all (\<lambda>item. \<not> nullish item) items | _ \<Rightarrow> True)
      \<and> (\<not> truthy tls
          \<or> (case tls of Arr ts \<Rightarrow> list_all (\<lambda>tool. \<not> nullish tool) ts | _ \<Rightarrow> False)))"

section \<open>The request and the routing rules\<close>

text \<open>
  \<open>model\<close> and the user identifier of the metadata are strings when present
  (\<open>None\<close>: the field, or for the user identifier the metadata, is missing).  The
  configuration is modelled with the types its loader gives it: model identifiers
  are strings and the threshold is an integral number.  The log of the request
  records the calls of \<^verbatim>\<open>req.log.info\<close> and \<^verbatim>\<open>req.log.error\<close> with the values they
  interpolate.
\<close>

record Usage =
  input_tokens :: int

datatype log_event =
    LongContextInfo nat int
  | BackgroundInfo string
  | ThinkInfo jsval
  | CustomRouterError error
  | RouterError error

record body =
  model :: "string option"
  messages :: jsval
  system :: jsval
  tools :: jsval
  thinking :: jsval
  metadata_user_id :: "string option"

record override =
  target :: ProviderTarget
  override_requestId :: nat

record request =
  bearerToken :: jsval
  body :: body
  sessionId :: "string option"
  dynamicApiKeyOverrides :: "override list option"
  tokenCount :: "nat option"
  log :: "log_event list"

text \<open>Truthiness of an optional string of the configuration.\<close>

definition configured :: "string option \<Rightarrow> bool" where
  "configured x = (case x of None \<Rightarrow> False | Some s \<Rightarrow> s \<noteq> [])"

text \<open>Lines 114 to 116: \<^verbatim>\<open>config.Providers.find((p) => p.name.toLowerCase() === provider)\<close>.
  The callback throws on a \<^verbatim>\<open>null\<close> entry and on an entry without a name.\<close>

fun find_provider :: "store \<Rightarrow> addr option list \<Rightarrow> string \<Rightarrow> error + addr option" where
  "find_provider st [] provider = Inr None"
| "find_provider st (p # ps) provider =
     (case p of
        None \<Rightarrow> Inl TypeError
      | Some a \<Rightarrow>
          (case name (st a) of
             None \<Rightarrow> Inl TypeError
           | Some n \<Rightarrow>
               if toLowerCase n = provider then Inr (Some a)
               else find_provider st ps provider))"

text \<open>Lines 113 to 123, the body of the branch for a requested model with a comma.
  The destructuring takes the first two parts of the split; a string with a comma
  has at least two, so the last case is never reached.\<close>

definition compound_selector :: "store \<Rightarrow> config \<Rightarrow> string \<Rightarrow> error + string" where
  "compound_selector st cfg requested =
     (case split requested '','' of
        provider # mdl # rest \<Rightarrow>
          (case Providers cfg of
             None \<Rightarrow> Inl TypeError
           | Some ps \<Rightarrow>
               bindE (find_provider st ps provider) (\<lambda>finalProvider.
                 case finalProvider of
                   None \<Rightarrow> Inr requested
                 | Some a \<Rightarrow>
                     (case (case models (st a) of
                              None \<Rightarrow> None
                            | Some ms \<Rightarrow> List.find (\<lambda>m. toLowerCase m = mdl) ms) of
                        None \<Rightarrow> Inr requested
                      | Some finalModel \<Rightarrow>
                          if finalModel \<noteq> []
                          then Inr ((case name (st a) of None \<Rightarrow> ''undefined'' | Some n \<Rightarrow> n)
                                    @ '','' @ finalModel)
                          else Inr requested)))
      | _ \<Rightarrow> Inr requested)"

text \<open>Lines 146 to 148: the first match of the pattern
  \<^verbatim>\<open>/<CCR-SUBAGENT-MODEL>(.*?)<\/CCR-SUBAGENT-MODEL>/s\<close>.  The leftmost match starts at the
  first opening tag; the group is as short as possible, so it ends at the first
  closing tag after it; with the flag \<^verbatim>\<open>s\<close> the dot matches every character.  If no
  closing tag follows the first opening tag, none follows a later one.\<close>

definition match_subagent :: "string \<Rightarrow> string option" where
  "match_subagent s =
     (case split_first ''<CCR-SUBAGENT-MODEL>'' s of
        None \<Rightarrow> None
      | Some (before, rest) \<Rightarrow>
          (case split_first ''</CCR-SUBAGENT-MODEL>'' rest of
             None \<Rightarrow> None
           | Some (enclosed, after) \<Rightarrow> Some enclosed))"

text \<open>Lines 142 to 156: the subagent directive.  The result is the extracted model and
  the request with the directive removed, or \<open>None\<close> when the rule does not apply.\<close>

definition subagent_directive :: "runtime \<Rightarrow> request \<Rightarrow> error + (string \<times> request) option" where
  "subagent_directive rt req =
     (let sys = system (body req) in
      if \<not> js_gt rt (opt_prop sys ''length'') 1 then Inr None
      else bindE (elem1 sys) (\<lambda>segment.
        case opt_prop segment ''text'' of
          Undefined \<Rightarrow> Inr None
        | Null \<Rightarrow> Inr None
        | Str t \<Rightarrow>
            if \<not> startsWith t ''<CCR-SUBAGENT-MODEL>'' then Inr None
            else (case match_subagent t of
                    None \<Rightarrow> Inr None
                  | Some m \<Rightarrow>
                      Inr (Some (m,
                        req\<lparr>body := (body req)\<lparr>system :=
                          set_elem1_text sys
                            (Str (replace_first t
                               (''<CCR-SUBAGENT-MODEL>'' @ m @ ''</CCR-SUBAGENT-MODEL>'')))\<rparr>\<rparr>)))
        | _ \<Rightarrow> Inl TypeError))"

text \<open>Lines 171 and 172: \<^verbatim>\<open>tools.some((tool) => tool.type?.startsWith("web_search"))\<close> on
  an array.\<close>

fun some_web_search :: "jsval list \<Rightarrow> error + bool" where
  "some_web_search [] = Inr False"
| "some_web_search (tool # ts) =
     bindE (get_prop tool ''type'') (\<lambda>ty.
       case ty of
         Undefined \<Rightarrow> some_web_search ts
       | Null \<Rightarrow> some_web_search ts
       | Str s \<Rightarrow> if startsWith s ''web_search'' then Inr True else some_web_search ts
       | _ \<Rightarrow> Inl TypeError)"

text \<open>Line 127: \<^verbatim>\<open>config.Router.longContextThreshold || 60000\<close>.\<close>

definition threshold_of :: "RouterConfig \<Rightarrow> int" where
  "threshold_of r =
     (case longContextThreshold r of None \<Rightarrow> 60000 | Some t \<Rightarrow> if t = 0 then 60000 else t)"

text \<open>Lines 106 to 178.  The result is the selected model (\<open>None\<close> is \<^verbatim>\<open>undefined\<close>, the
  value of a default model that is not configured) and the request as the rules
  leave it.  Every exception is thrown before the request is changed.\<close>

definition getUseModel ::
  "runtime \<Rightarrow> store \<Rightarrow> request \<Rightarrow> nat \<Rightarrow> config \<Rightarrow> Usage option
     \<Rightarrow> error + (string option \<times> request)"
where
  "getUseModel rt st req tokens cfg lastUsage =
     (case model (body req) of
        None \<Rightarrow> Inl TypeError
      | Some requested \<Rightarrow>
          if str_includes requested '','' then
            bindE (compound_selector st cfg requested) (\<lambda>m. Inr (Some m, req))
          else
            (case Router cfg of
               None \<Rightarrow> Inl TypeError
             | Some r \<Rightarrow>
                 let threshold = threshold_of r;
                     lastUsageThreshold =
                       (case lastUsage of
                          None \<Rightarrow> False
                        | Some u \<Rightarrow> input_tokens u > threshold \<and> int tokens > 20000);
                     tokenCountThreshold = (int tokens > threshold)
                 in
                 if (lastUsageThreshold \<or> tokenCountThreshold) \<and> configured (longContext r) then
                   Inr (longContext r,
                        req\<lparr>log := log req @ [LongContextInfo tokens threshold]\<rparr>)
                 else
                   bindE (subagent_directive rt req) (\<lambda>directive.
                     case directive of
                       Some (m, req') \<Rightarrow> Inr (Some m, req')
                     | None \<Rightarrow>
                         if startsWith requested ''claude-3-5-haiku'' \<and> configured (background r) then
                           Inr (background r, req\<lparr>log := log req @ [BackgroundInfo requested]\<rparr>)
                         else if truthy (thinking (body req)) \<and> configured (think r) then
                           Inr (think r, req\<lparr>log := log req @ [ThinkInfo (thinking (body req))]\<rparr>)
                         else
                           bindE (case tools (body req) of
                                    Arr ts \<Rightarrow> some_web_search ts
                                  | _ \<Rightarrow> Inr False) (\<lambda>web.
                             if web \<and> configured (webSearch r) then Inr (webSearch r, req)
                             else Inr (default_model r, req)))))"

section \<open>The credential overlay\<close>

text \<open>
  The state the overlay works on: the provider objects, the calls of
  \<^verbatim>\<open>providerService.updateProvider(name, {apiKey})\<close> made so far, and the lines written
  with \<^verbatim>\<open>console.log\<close> (each is the number of providers of its message).  The server is
  \<open>None\<close> when \<^verbatim>\<open>server?.providerService?.getProvider\<close> is missing; otherwise it tells
  whether \<^verbatim>\<open>getProvider(name)\<close> is truthy.
\<close>

record world =
  objects :: store
  provider_updates :: "(string \<times> string) list"
  console :: "nat list"

text \<open>Lines 208 to 210, for a provider whose stack is an array or missing: the \<^verbatim>\<open>newKey\<close>
  of the last entry of the stack, else \<^verbatim>\<open>api_key\<close>, else \<^verbatim>\<open>apiKey\<close>, else \<^verbatim>\<open>null\<close>.\<close>

definition currentKey :: "provider \<Rightarrow> string option" where
  "currentKey p =
     (case dynamic_api_key_stack p of
        None \<Rightarrow> (case api_key p of Some k \<Rightarrow> Some k | None \<Rightarrow> apiKey p)
      | Some stack \<Rightarrow>
          if stack = [] then (case api_key p of Some k \<Rightarrow> Some k | None \<Rightarrow> apiKey p)
          else Some (newKey (last stack)))"

text \<open>Lines 199 to 202: the original credential is kept in \<^verbatim>\<open>_static_api_key\<close> unless that
  field is already defined.\<close>

definition snapshot_static :: "provider \<Rightarrow> provider" where
  "snapshot_static p =
     (if static_api_key p = None
      then p\<lparr>static_api_key := Some (case api_key p of Some k \<Rightarrow> Some k | None \<Rightarrow> apiKey p)\<rparr>
      else p)"

text \<open>Lines 204 to 206: the stack of the provider, created empty when it is missing.\<close>

definition stack_of :: "provider \<Rightarrow> CredentialOverrideEntry list" where
  "stack_of p = (case dynamic_api_key_stack p of Some es \<Rightarrow> es | None \<Rightarrow> [])"

definition ensure_stack :: "provider \<Rightarrow> provider" where
  "ensure_stack p = p\<lparr>dynamic_api_key_stack := Some (stack_of p)\<rparr>"

text \<open>Lines 218 to 221: both spellings of the credential are overwritten on every
  reference of the target.\<close>

definition overwrite_credentials :: "string \<Rightarrow> addr list \<Rightarrow> store \<Rightarrow> store" where
  "overwrite_credentials token refs os =
     fold (\<lambda>ref os. os(ref := (os ref)\<lparr>api_key := Some token, apiKey := Some token\<rparr>)) refs os"

text \<open>Lines 193 to 238: the callback of \<^verbatim>\<open>providerTargets.forEach\<close>, for one target.  The
  second component of the state is the local array \<^verbatim>\<open>overrides\<close>.  The primary of a
  target is an object, so the test of line 195 never returns.\<close>

definition apply_dynamic_key ::
  "(string \<Rightarrow> bool) option \<Rightarrow> nat \<Rightarrow> string \<Rightarrow> ProviderTarget
     \<Rightarrow> world \<times> override list \<Rightarrow> world \<times> override list"
where
  "apply_dynamic_key server rid token tgt state =
     (let w = fst state;
          p = ensure_stack (snapshot_static (objects w (primary tgt)))
      in
      if currentKey p = Some token then
        (w\<lparr>objects := (objects w)(primary tgt := p)\<rparr>, snd state)
      else
        let pushed = p\<lparr>dynamic_api_key_stack :=
                         Some (stack_of p @ [\<lparr>requestId = rid, newKey = token\<rparr>])\<rparr>;
            objs = overwrite_credentials token (references tgt)
                     ((objects w)(primary tgt := pushed));
            notified = (case server of
                          None \<Rightarrow> []
                        | Some getProvider \<Rightarrow>
                            if getProvider (target_name tgt) then [(target_name tgt, token)] else [])
        in (w\<lparr>objects := objs, provider_updates := provider_updates w @ notified\<rparr>,
            snd state @ [\<lparr>target = tgt, override_requestId = rid\<rparr>]))"

text \<open>Lines 183 to 247.  \<open>rid\<close> is the fresh symbol of line 190.\<close>

definition apply_overlay ::
  "(string \<Rightarrow> bool) option \<Rightarrow> nat \<Rightarrow> config \<Rightarrow> request \<Rightarrow> world \<Rightarrow> request \<times> world"
where
  "apply_overlay server rid cfg req w =
     (let providerTargets = collectProviderTargets (objects w) cfg in
      if truthy (bearerToken req) \<and> providerTargets \<noteq> [] then
        let token = (case bearerToken req of Str s \<Rightarrow> trim s | _ \<Rightarrow> []) in
        if token \<noteq> [] then
          let final = fold (apply_dynamic_key server rid token) providerTargets (w, []);
              overrides = snd final
          in if overrides \<noteq> []
             then (req\<lparr>dynamicApiKeyOverrides := Some overrides\<rparr>,
                   (fst final)\<lparr>console := console (fst final) @ [length overrides]\<rparr>)
             else (req, fst final)
        else (req, w)
      else (req, w))"

section \<open>The router\<close>

text \<open>
  The collaborators of the router.  \<open>require_router path\<close> is \<^verbatim>\<open>require(path)\<close>: it throws
  or gives the custom router, a function of the request and the configuration that
  throws or returns a model (\<open>None\<close>: \<^verbatim>\<open>undefined\<close>); the custom router is taken not to
  change the request.
\<close>

record collaborators =
  readFile :: "string \<Rightarrow> error + string"
  require_router :: "string \<Rightarrow> error + (request \<Rightarrow> config \<Rightarrow> error + string option)"
  sessionUsageCache :: "string \<Rightarrow> Usage option"

text \<open>Modelled from the spec: the cache module \<^verbatim>\<open>./cache\<close> is not among the sources.  The
  spec gives \<^verbatim>\<open>get(sessionId) -> {input_tokens: integer} | absent\<close>, a lookup by session id;
  a missing session id has no entry.\<close>

definition cache_get :: "(string \<Rightarrow> Usage option) \<Rightarrow> string option \<Rightarrow> Usage option" where
  "cache_get cache sid = (case sid of None \<Rightarrow> None | Some s \<Rightarrow> cache s)"

text \<open>Lines 249 to 254.\<close>

definition parse_session :: "request \<Rightarrow> request" where
  "parse_session req =
     (case metadata_user_id (body req) of
        None \<Rightarrow> req
      | Some user_id \<Rightarrow>
          if user_id = [] then req
          else (case split user_id ''_session_'' of
                  first # second # rest \<Rightarrow> req\<lparr>sessionId := Some second\<rparr>
                | _ \<Rightarrow> req))"

text \<open>Lines 256 to 260.  The result is the request and the local \<^verbatim>\<open>system\<close>, which is the
  array of the body unless the body has none.  \<^verbatim>\<open>includes\<close> is a method of strings and
  of arrays, \<^verbatim>\<open>split\<close> of strings only.\<close>

definition rewrite_system_prompt ::
  "runtime \<Rightarrow> collaborators \<Rightarrow> config \<Rightarrow> request \<Rightarrow> error + (request \<times> jsval)"
where
  "rewrite_system_prompt rt co cfg req =
     (let sys = (if system (body req) = Undefined then Arr [] else system (body req)) in
      case REWRITE_SYSTEM_PROMPT cfg of
        None \<Rightarrow> Inr (req, sys)
      | Some path \<Rightarrow>
          if path = [] then Inr (req, sys)
          else
            bindE (get_prop sys ''length'') (\<lambda>len.
              if \<not> js_gt rt len 1 then Inr (req, sys)
              else bindE (elem1 sys) (\<lambda>segment.
                let t = opt_prop segment ''text'' in
                bindE (case t of
                         Undefined \<Rightarrow> Inr False
                       | Null \<Rightarrow> Inr False
                       | Str s \<Rightarrow> Inr (str_includes s ''<env>'')
                       | Arr xs \<Rightarrow> Inr (Str ''<env>'' \<in> set xs)
                       | _ \<Rightarrow> Inl TypeError) (\<lambda>has_env.
                  if \<not> has_env then Inr (req, sys)
                  else bindE (readFile co path) (\<lambda>prompt.
                    case t of
                      Str s \<Rightarrow>
                        (let sys' = set_elem1_text sys
                                      (Str (prompt @ ''<env>'' @ last (split s ''<env>'')))
                         in Inr (req\<lparr>body := (body req)\<lparr>system := sys'\<rparr>\<rparr>, sys'))
                    | _ \<Rightarrow> Inl TypeError)))))"

text \<open>Lines 270 to 280: the custom router, when one is configured.  The result is the
  model it yields (\<open>None\<close> also when it fails) and the request, which holds the token
  count once the module is loaded and the error line of a failure.\<close>

definition consult_custom_router ::
  "collaborators \<Rightarrow> config \<Rightarrow> request \<Rightarrow> nat \<Rightarrow> string option \<times> request"
where
  "consult_custom_router co cfg req tokens =
     (case CUSTOM_ROUTER_PATH cfg of
        None \<Rightarrow> (None, req)
      | Some path \<Rightarrow>
          if path = [] then (None, req)
          else (case require_router co path of
                  Inl e \<Rightarrow> (None, req\<lparr>log := log req @ [CustomRouterError e]\<rparr>)
                | Inr customRouter \<Rightarrow>
                    (let req' = req\<lparr>tokenCount := Some tokens\<rparr> in
                     case customRouter req' cfg of
                       Inl e \<Rightarrow> (None, req'\<lparr>log := log req' @ [CustomRouterError e]\<rparr>)
                     | Inr m \<Rightarrow> (m, req'))))"

text \<open>Lines 263 to 284, the body of the \<^verbatim>\<open>try\<close>.  An exception comes with the request as
  it is when the exception is thrown.\<close>

definition route_decision ::
  "runtime \<Rightarrow> collaborators \<Rightarrow> store \<Rightarrow> config \<Rightarrow> Usage option \<Rightarrow> request \<Rightarrow> jsval
     \<Rightarrow> (error \<times> request) + request"
where
  "route_decision rt co st cfg lastMessageUsage req sys =
     (case calculateTokenCount rt (messages (body req)) sys (tools (body req)) of
        Inl e \<Rightarrow> Inl (e, req)
      | Inr tokens \<Rightarrow>
          let custom = consult_custom_router co cfg req tokens;
              req1 = snd custom
          in
          if configured (fst custom) then Inr (req1\<lparr>body := (body req1)\<lparr>model := fst custom\<rparr>\<rparr>)
          else (case getUseModel rt st req1 tokens cfg lastMessageUsage of
                  Inl e \<Rightarrow> Inl (e, req1)
                | Inr (m, req2) \<Rightarrow> Inr (req2\<lparr>body := (body req2)\<lparr>model := m\<rparr>\<rparr>)))"

text \<open>Lines 180 to 290.  The result is the state of the shared objects and either the
  exception with which the returned promise is rejected or the request as the router
  leaves it.  The handler of line 285 logs and then reads \<^verbatim>\<open>config.Router.default\<close>,
  which throws when the configuration has no \<^verbatim>\<open>Router\<close>.\<close>

definition router ::
  "runtime \<Rightarrow> collaborators \<Rightarrow> (string \<Rightarrow> bool) option \<Rightarrow> nat \<Rightarrow> config \<Rightarrow> request \<Rightarrow> world
     \<Rightarrow> world \<times> (error + request)"
where
  "router rt co server rid cfg req w =
     (let overlaid = apply_overlay server rid cfg req w;
          w1 = snd overlaid;
          req2 = parse_session (fst overlaid);
          lastMessageUsage = cache_get (sessionUsageCache co) (sessionId req2)
      in
      (w1,
       case rewrite_system_prompt rt co cfg req2 of
         Inl e \<Rightarrow> Inl e
       | Inr (req3, sys) \<Rightarrow>
           (case route_decision rt co (objects w1) cfg lastMessageUsage req3 sys of
              Inr req4 \<Rightarrow> Inr req4
            | Inl (e, req4) \<Rightarrow>
                (case Router cfg of
                   None \<Rightarrow> Inl TypeError
                 | Some r \<Rightarrow>
                     Inr (req4\<lparr>log := log req4 @ [RouterError e],
                               body := (body req4)\<lparr>model := default_model r\<rparr>\<rparr>)))))"

section \<open>Concrete inputs\<close>

text \<open>A provider object as a configuration file declares it: a name, a credential
  under the spelling \<^verbatim>\<open>api_key\<close>, a list of models, and no override state yet.\<close>

definition declared_provider :: "string \<Rightarrow> string option \<Rightarrow> string list \<Rightarrow> provider" where
  "declared_provider n k ms =
     \<lparr>name = Some n, api_key = k, apiKey = None, models = Some ms,
      static_api_key = None, dynamic_api_key_stack = None\<rparr>"

text \<open>A store whose provider and model are written with capital letters.\<close>

definition store_mixed_case :: store where
  "store_mixed_case = (\<lambda>a. declared_provider ''OpenAI'' (Some ''sk-static'') [''GPT-4''])"

text \<open>A configuration that declares the same provider name in both lists: the object
  at address 0 stands in both, the object at address 1 only in the lowercase list.\<close>

definition store_same_name :: store where
  "store_same_name = (\<lambda>a. declared_provider ''openai'' (Some ''sk-static'') [''gpt-4''])"

definition config_two_lists :: config where
  "config_two_lists =
     \<lparr>Router = None, Providers = Some [Some 0], providers = Some [Some 1, Some 0],
      REWRITE_SYSTEM_PROMPT = None, CUSTOM_ROUTER_PATH = None\<rparr>"

text \<open>A run-time environment whose tokenizer gives one token for each character of a
  string and throws on every other value, and collaborators without a prompt file,
  a custom router module or a cached usage.\<close>

definition char_tokenizer :: runtime where
  "char_tokenizer =
     \<lparr>encode_length = (\<lambda>v. case v of Str s \<Rightarrow> Inr (length s) | _ \<Rightarrow> Inl TypeError),
      stringify_text = (\<lambda>v. ''{}''),
      string_coerced = (\<lambda>v. ''[object Object]''),
      plus_coerced = (\<lambda>a b. Undefined),
      gt_coerced = (\<lambda>v n. False)\<rparr>"

text \<open>The same run-time environment with a tokenizer that throws on a text with the
  special token \<^verbatim>\<open><|endoftext|>\<close>, as the encoding \<^verbatim>\<open>cl100k_base\<close> does when it is called
  with one argument.\<close>

definition special_tokenizer :: runtime where
  "special_tokenizer =
     char_tokenizer
       \<lparr>encode_length :=
          (\<lambda>v. case v of
                 Str s \<Rightarrow> if str_includes s ''<|endoftext|>'' then Inl TokenizerFailure
                          else Inr (length s)
               | _ \<Rightarrow> Inl TypeError)\<rparr>"

definition no_collaborators :: collaborators where
  "no_collaborators =
     \<lparr>readFile = (\<lambda>path. Inl IOError),
      require_router = (\<lambda>path. Inl CustomRouterFailure),
      sessionUsageCache = (\<lambda>sid. None)\<rparr>"

text \<open>A request for the model \<open>m\<close> with an empty conversation and nothing else.\<close>

definition request_for :: "string \<Rightarrow> request" where
  "request_for m =
     \<lparr>bearerToken = Undefined,
      body = \<lparr>model = Some m, messages = Arr [], system = Undefined, tools = Undefined,
              thinking = Undefined, metadata_user_id = None\<rparr>,
      sessionId = None, dynamicApiKeyOverrides = None, tokenCount = None, log = []\<rparr>"

text \<open>A configuration with one provider \<^verbatim>\<open>openai\<close> (at every address of
  \<open>store_same_name\<close>) in the capitalized list, a default model and the long-context
  model \<^verbatim>\<open>long-model\<close> with no threshold of its own.\<close>

definition example_router :: RouterConfig where
  "example_router =
     \<lparr>default_model = Some ''default-model'', background = None, think = None,
      webSearch = None, longContext = Some ''long-model'', longContextThreshold = None\<rparr>"

definition example_config :: config where
  "example_config =
     \<lparr>Router = Some example_router, Providers = Some [Some 0], providers = None,
      REWRITE_SYSTEM_PROMPT = None, CUSTOM_ROUTER_PATH = None\<rparr>"


definition example_world :: world where
  "example_world = \<lparr>objects = store_same_name, provider_updates = [], console = []\<rparr>"

text \<open>A system prompt of two text segments, the second with the text \<open>t\<close>.\<close>

definition two_segments :: "string \<Rightarrow> jsval" where
  "two_segments t =
     Arr [Obj [(''type'', Str ''text''), (''text'', Str ''You are an agent.'')],
          Obj [(''type'', Str ''text''), (''text'', Str t)]]"


text \<open>A request whose metadata carries the user identifier \<open>u\<close>.\<close>

definition request_of_user :: "string \<Rightarrow> request" where
  "request_of_user u =
     (request_for ''claude-sonnet'')
       \<lparr>body := (body (request_for ''claude-sonnet''))\<lparr>metadata_user_id := Some u\<rparr>\<rparr>"

text \<open>A configuration that asks for the rewriting of the system prompt from a file, and
  a request whose second system segment carries the environment marker.\<close>

definition rewrite_config :: config where
  "rewrite_config = example_config\<lparr>REWRITE_SYSTEM_PROMPT := Some ''/etc/ccr/prompt.md''\<rparr>"

definition env_request :: request where
  "env_request =
     (request_for ''claude-sonnet'')
       \<lparr>body := (body (request_for ''claude-sonnet''))
          \<lparr>system := two_segments ''Context: <env>cwd: /tmp</env>''\<rparr>\<rparr>"

text \<open>A configuration whose providers are declared in the lowercase list only.\<close>

definition lowercase_only_config :: config where
  "lowercase_only_config = example_config\<lparr>Providers := None, providers := Some [Some 0]\<rparr>"

text \<open>A conversation with a plain message, a message of parts (one of a type the
  estimator does not know), and a number where a message should be; a system prompt
  with a string where a segment should be; one tool.\<close>

definition sample_messages :: jsval where
  "sample_messages =
     Arr [Obj [(''role'', Str ''user''), (''content'', Str ''hello'')],
          Obj [(''role'', Str ''assistant''),
               (''content'', Arr [Obj [(''type'', Str ''text''), (''text'', Str ''hi'')],
                                  Obj [(''type'', Str ''image''), (''source'', Null)],
                                  Obj [(''type'', Str ''tool_use''), (''input'', Obj [])]])],
          Num 5]"

definition sample_system :: jsval where
  "sample_system = Arr [Obj [(''type'', Str ''text''), (''text'', Str ''sys'')], Str ''junk'']"

definition sample_tools :: jsval where
  "sample_tools =
     Arr [Obj [(''name'', Str ''t''), (''description'', Str ''desc''), (''input_schema'', Obj [])]]"

text \<open>A conversation whose only message has the text of a special token, and a tool
  with a description and no name.\<close>

definition special_messages :: jsval where
  "special_messages = Arr [Obj [(''role'', Str ''user''), (''content'', Str ''<|endoftext|>'')]]"

definition nameless_tools :: jsval where
  "nameless_tools = Arr [Obj [(''description'', Str ''d'')]]"

text \<open>A request that carries the bearer token \<open>b\<close>.\<close>

definition bearer_request :: "string \<Rightarrow> request" where
  "bearer_request b = (request_for ''claude-sonnet'')\<lparr>bearerToken := Str b\<rparr>"


text \<open>A bearer token of white space only: a no-break space, a space and a tab.\<close>

definition blank_token :: string where
  "blank_token = [CHR 0xA0, CHR 0x20, CHR 0x09]"

text \<open>A bearer token with white space at both ends, the no-break space U+00A0
  included.\<close>

definition padded_token :: string where
  "padded_token = CHR 0xA0 # '' tok '' @ [CHR 0xA0]"

section \<open>Properties of the string methods\<close>

lemma split_first_prefix:
  "sep \<noteq> [] \<Longrightarrow> split_first sep (sep @ r) = Some ([], r)"
  by (cases sep) simp_all

lemma split_first_None_iff:
  "sep \<noteq> [] \<Longrightarrow> split_first sep s = None \<longleftrightarrow> \<not> str_includes s sep"
  by (induction s) (auto split: option.splits)

lemma prefix_of_longer:
  assumes "prefix sep (u @ v)" "length sep \<le> length u"
  shows "prefix sep u"
proof -
  from assms(1) obtain z where z: "u @ v = sep @ z" by (auto simp: prefix_def)
  have "u = take (length u) (sep @ z)" using z [symmetric] by simp
  also have "\<dots> = sep @ take (length u - length sep) z" using assms(2) by simp
  finally show ?thesis by (metis prefixI)
qed

lemma split_first_at:
  "sep \<noteq> [] \<Longrightarrow> \<not> str_includes (a @ butlast sep) sep \<Longrightarrow>
   split_first sep (a @ sep @ r) = Some (a, r)"
proof (induction a)
  case Nil
  then show ?case by (simp add: split_first_prefix)
next
  case (Cons x a)
  have len: "length sep \<le> length (x # a @ butlast sep)" by simp
  have split: "x # a @ sep @ r = (x # a @ butlast sep) @ [last sep] @ r"
    using Cons.prems(1) by simp
  have "\<not> prefix sep (x # a @ butlast sep)" using Cons.prems(2) by simp
  then have np: "\<not> prefix sep (x # a @ sep @ r)"
    unfolding split using prefix_of_longer [OF _ len] by blast
  have "\<not> str_includes (a @ butlast sep) sep" using Cons.prems(2) by simp
  with Cons.IH Cons.prems(1) have "split_first sep (a @ sep @ r) = Some (a, r)" by simp
  with np show ?case by simp
qed

lemma split_at:
  "sep \<noteq> [] \<Longrightarrow> \<not> str_includes (a @ butlast sep) sep \<Longrightarrow>
   split (a @ sep @ r) sep = a # split r sep"
  by (subst split.simps) (simp add: split_first_at)

lemma split_absent:
  assumes "sep \<noteq> []" "\<not> str_includes s sep"
  shows "split s sep = [s]"
proof -
  have "split_first sep s = None" using assms by (simp add: split_first_None_iff)
  then show ?thesis using assms(1) by (subst split.simps) simp
qed



section \<open>Properties of the provider registry\<close>

lemma first_seen_snoc:
  "first_seen (xs @ [x]) = (if x \<in> set xs then first_seen xs else first_seen xs @ [x])"
  by (simp add: first_seen_def)

lemma set_first_seen: "set (first_seen xs) = set xs"
  by (simp add: first_seen_def)

lemma distinct_first_seen: "distinct (first_seen xs)"
  by (simp add: first_seen_def)

lemma hd_first_seen: "hd (first_seen xs) = hd xs"
  by (induction xs rule: rev_induct) (auto simp: first_seen_snoc hd_append first_seen_def)

lemma entries_named_snoc:
  "entries_named st (es @ [e]) n =
     (case e of
        None \<Rightarrow> entries_named st es n
      | Some a \<Rightarrow> if entry_name st e = Some n then entries_named st es n @ [a]
                  else entries_named st es n)"
  by (auto simp: entries_named_def List.map_filter_def entry_name_def split: option.splits)

lemma set_entries_named:
  "set (entries_named st es n) = {a. Some a \<in> set es \<and> entry_name st (Some a) = Some n}"
  by (induction es rule: rev_induct)
     (auto simp: entries_named_snoc entries_named_def List.map_filter_def split: option.splits if_splits)

lemma set_names:
  "set (List.map_filter (entry_name st) es) = {n. \<exists>e \<in> set es. entry_name st e = Some n}"
  by (induction es) (auto simp: List.map_filter_def)

lemma names_iff_entries:
  "n \<in> set (List.map_filter (entry_name st) es) \<longleftrightarrow> entries_named st es n \<noteq> []"
proof -
  have "entries_named st es n \<noteq> [] \<longleftrightarrow> set (entries_named st es n) \<noteq> {}" by simp
  also have "\<dots> \<longleftrightarrow> (\<exists>a. Some a \<in> set es \<and> entry_name st (Some a) = Some n)"
    unfolding set_entries_named by auto
  also have "\<dots> \<longleftrightarrow> (\<exists>e \<in> set es. entry_name st e = Some n)"
  proof
    assume "\<exists>a. Some a \<in> set es \<and> entry_name st (Some a) = Some n"
    then show "\<exists>e \<in> set es. entry_name st e = Some n" by blast
  next
    assume "\<exists>e \<in> set es. entry_name st e = Some n"
    then obtain e where e: "e \<in> set es" "entry_name st e = Some n" by blast
    from e(2) obtain a where "e = Some a" by (cases e) (simp_all add: entry_name_def)
    with e show "\<exists>a. Some a \<in> set es \<and> entry_name st (Some a) = Some n" by blast
  qed
  finally show ?thesis unfolding set_names by simp
qed

lemma map_of_tabulate:
  "map_of (map (\<lambda>k. (k, f k)) ks) n = (if n \<in> set ks then Some (f n) else None)"
  by (induction ks) auto

lemma update_tabulate_present:
  "n \<in> set ks \<Longrightarrow> distinct ks \<Longrightarrow>
   AList.update n v (map (\<lambda>k. (k, f k)) ks) = map (\<lambda>k. (k, if k = n then v else f k)) ks"
  by (induction ks) auto

lemma update_tabulate_absent:
  "n \<notin> set ks \<Longrightarrow>
   AList.update n v (map (\<lambda>k. (k, f k)) ks) = map (\<lambda>k. (k, f k)) ks @ [(n, v)]"
  by (induction ks) auto

text \<open>The state of the \<^verbatim>\<open>Map\<close> after any list of entries has been registered, by
  induction on the list from its end (the loop appends).\<close>

lemma registry_fold:
  "fold (registerProvider st) es [] =
     map (\<lambda>n. (n, target_of st es n)) (first_seen (List.map_filter (entry_name st) es))"
proof (induction es rule: rev_induct)
  case Nil
  show ?case by (simp add: first_seen_def List.map_filter_def)
next
  case (snoc e es)
  let ?ns = "first_seen (List.map_filter (entry_name st) es)"
  let ?m = "map (\<lambda>n. (n, target_of st es n)) ?ns"
  have fold_eq: "fold (registerProvider st) (es @ [e]) [] = registerProvider st e ?m"
    using snoc.IH by simp
  show ?case
  proof (cases "entry_name st e")
    case None
    have same: "target_of st (es @ [e]) = target_of st es"
      using None by (auto simp: target_of_def entries_named_snoc fun_eq_iff split: option.splits)
    have "registerProvider st e ?m = ?m"
      using None by (auto simp: registerProvider_def entry_name_def split: option.splits if_splits)
    moreover have "List.map_filter (entry_name st) (es @ [e]) = List.map_filter (entry_name st) es"
      using None by (simp add: List.map_filter_def)
    ultimately show ?thesis using fold_eq same by simp
  next
    case (Some n)
    then obtain a where e: "e = Some a" and nm: "name (st a) = Some n" and ne: "n \<noteq> []"
      by (auto simp: entry_name_def split: option.splits if_splits)
    have names: "List.map_filter (entry_name st) (es @ [e]) =
                 List.map_filter (entry_name st) es @ [n]"
      using Some by (simp add: List.map_filter_def)
    have other: "k \<noteq> n \<Longrightarrow> target_of st (es @ [e]) k = target_of st es k" for k
      using Some e by (simp add: target_of_def entries_named_snoc)
    have ext: "entries_named st (es @ [e]) n = entries_named st es n @ [a]"
      using Some e by (simp add: entries_named_snoc)
    show ?thesis
    proof (cases "n \<in> set (List.map_filter (entry_name st) es)")
      case True
      then have nonempty: "entries_named st es n \<noteq> []" by (simp add: names_iff_entries)
      have inns: "n \<in> set ?ns" using True by (simp add: set_first_seen)
      have look: "map_of ?m n = Some (target_of st es n)"
        using inns by (simp add: map_of_tabulate)
      have ns': "first_seen (List.map_filter (entry_name st) (es @ [e])) = ?ns"
        using True by (simp add: names first_seen_snoc)
      show ?thesis
      proof (cases "a \<in> set (entries_named st es n)")
        case True
        have "target_of st (es @ [e]) n = target_of st es n"
          using True nonempty by (simp add: target_of_def ext first_seen_snoc)
        with other have "target_of st (es @ [e]) k = target_of st es k" for k
          by (cases "k = n") simp_all
        then have same: "target_of st (es @ [e]) = target_of st es"
          by (simp add: fun_eq_iff)
        have "registerProvider st e ?m = ?m"
          using True look e nm ne
          by (simp add: registerProvider_def target_of_def set_first_seen)
        then show ?thesis using fold_eq same ns' by simp
      next
        case False
        have new: "target_of st (es @ [e]) n =
                   (target_of st es n)\<lparr>references := references (target_of st es n) @ [a]\<rparr>"
          using False nonempty by (simp add: target_of_def ext first_seen_snoc)
        have "registerProvider st e ?m =
              AList.update n ((target_of st es n)\<lparr>references := references (target_of st es n) @ [a]\<rparr>) ?m"
          using False look e nm ne
          by (simp add: registerProvider_def target_of_def set_first_seen)
        also have "\<dots> = map (\<lambda>k. (k, if k = n then target_of st (es @ [e]) n else target_of st es k)) ?ns"
          using inns by (simp add: update_tabulate_present new distinct_first_seen)
        also have "\<dots> = map (\<lambda>k. (k, target_of st (es @ [e]) k)) ?ns"
          using other by auto
        finally show ?thesis using fold_eq ns' by simp
      qed
    next
      case False
      then have empty: "entries_named st es n = []" by (simp add: names_iff_entries)
      have notin: "n \<notin> set ?ns" using False by (simp add: set_first_seen)
      have look: "map_of ?m n = None" using notin by (simp add: map_of_tabulate)
      have ns': "first_seen (List.map_filter (entry_name st) (es @ [e])) = ?ns @ [n]"
        using False by (simp add: names first_seen_snoc)
      have new: "target_of st (es @ [e]) n = \<lparr>target_name = n, references = [a], primary = a\<rparr>"
        by (simp add: target_of_def ext empty first_seen_def)
      have B: "?m = map (\<lambda>k. (k, target_of st (es @ [e]) k)) ?ns"
      proof -
        have "target_of st es k = target_of st (es @ [e]) k" if "k \<in> set ?ns" for k
          using that notin other [of k] by (cases "k = n") simp_all
        then show ?thesis by simp
      qed
      have "registerProvider st e ?m =
            AList.update n \<lparr>target_name = n, references = [a], primary = a\<rparr> ?m"
        using look e nm ne by (simp add: registerProvider_def)
      also have "\<dots> = ?m @ [(n, target_of st (es @ [e]) n)]"
        using notin by (simp add: update_tabulate_absent new)
      finally have "fold (registerProvider st) (es @ [e]) [] = ?m @ [(n, target_of st (es @ [e]) n)]"
        using fold_eq by simp
      also have "?m @ [(n, target_of st (es @ [e]) n)] =
                 map (\<lambda>k. (k, target_of st (es @ [e]) k)) (?ns @ [n])"
        using B by simp
      finally show ?thesis using ns' by simp
    qed
  qed
qed

lemma collect_eq:
  "collectProviderTargets st cfg =
     map (target_of st (declared cfg))
       (first_seen (List.map_filter (entry_name st) (declared cfg)))"
proof -
  have "registerProviders st (providers cfg) (registerProviders st (Providers cfg) [])
          = fold (registerProvider st) (declared cfg) []"
    by (simp add: registerProviders_def declared_def split: option.splits)
  then show ?thesis
    by (simp add: collectProviderTargets_def registry_fold comp_def)
qed

lemma target_in_collect:
  assumes "t \<in> set (collectProviderTargets st cfg)"
  shows "t = target_of st (declared cfg) (target_name t)
         \<and> entries_named st (declared cfg) (target_name t) \<noteq> []"
proof -
  from assms obtain n where n: "n \<in> set (List.map_filter (entry_name st) (declared cfg))"
    and t: "t = target_of st (declared cfg) n"
    by (auto simp: collect_eq set_first_seen)
  have "target_name t = n" using t by (simp add: target_of_def)
  with n t show ?thesis by (simp add: names_iff_entries)
qed

text \<open>
  Claim C6.  \<^verbatim>\<open>collectProviderTargets\<close> merges the two declared lists, the capitalized
  one first, into one target per name, in the order the names are first seen.  A
  target holds every declared object of its name once (objects are compared by
  identity, here by address), its primary is the first of them, so its references
  are never empty and contain the primary.  Two entries of one name, one in each
  list, end in the one target of that name.
\<close>

theorem collectProviderTargets_merges:
  "collectProviderTargets st cfg =
     map (target_of st (declared cfg))
       (first_seen (List.map_filter (entry_name st) (declared cfg)))
   \<and> distinct (map target_name (collectProviderTargets st cfg))
   \<and> (\<forall>t \<in> set (collectProviderTargets st cfg).
         references t \<noteq> [] \<and> primary t \<in> set (references t)
         \<and> primary t = hd (references t) \<and> distinct (references t)
         \<and> set (references t) =
             {a. Some a \<in> set (declared cfg) \<and> name (st a) = Some (target_name t)})
   \<and> (\<forall>ps qs a b n.
         Providers cfg = Some ps \<and> providers cfg = Some qs
         \<and> Some a \<in> set ps \<and> Some b \<in> set qs
         \<and> name (st a) = Some n \<and> name (st b) = Some n \<and> n \<noteq> [] \<longrightarrow>
         (\<exists>!t. t \<in> set (collectProviderTargets st cfg) \<and> target_name t = n)
         \<and> (\<forall>t \<in> set (collectProviderTargets st cfg).
               target_name t = n \<longrightarrow> a \<in> set (references t) \<and> b \<in> set (references t)))"
proof (intro conjI ballI allI impI)
  show "collectProviderTargets st cfg =
     map (target_of st (declared cfg))
       (first_seen (List.map_filter (entry_name st) (declared cfg)))"
    by (rule collect_eq)
next
  have "map target_name (collectProviderTargets st cfg) =
        first_seen (List.map_filter (entry_name st) (declared cfg))"
    by (simp add: collect_eq comp_def target_of_def)
  then show "distinct (map target_name (collectProviderTargets st cfg))"
    by (simp add: distinct_first_seen)
next
  fix t assume t: "t \<in> set (collectProviderTargets st cfg)"
  let ?es = "entries_named st (declared cfg) (target_name t)"
  from target_in_collect [OF t] have eq: "t = target_of st (declared cfg) (target_name t)"
    and ne: "?es \<noteq> []" by simp_all
  have refs: "references t = first_seen ?es" and prim: "primary t = hd ?es"
    using eq by (metis ProviderTarget.select_convs(2) target_of_def,
                 metis ProviderTarget.select_convs(3) target_of_def)
  show "references t \<noteq> []" using ne refs set_first_seen [of ?es] by (metis set_empty)
  show "primary t \<in> set (references t)" using ne refs prim by (simp add: set_first_seen)
  show "primary t = hd (references t)" using refs prim by (simp add: hd_first_seen)
  show "distinct (references t)" using refs by (simp add: distinct_first_seen)
  have tn: "target_name t \<noteq> []"
  proof -
    from ne obtain a where "a \<in> set ?es" by (cases ?es) auto
    then show ?thesis
      by (auto simp: set_entries_named entry_name_def split: option.splits if_splits)
  qed
  show "set (references t) =
          {a. Some a \<in> set (declared cfg) \<and> name (st a) = Some (target_name t)}"
    using tn by (auto simp: refs set_first_seen set_entries_named entry_name_def
                      split: option.splits if_splits)
next
  fix ps qs a b n
  assume h: "Providers cfg = Some ps \<and> providers cfg = Some qs
         \<and> Some a \<in> set ps \<and> Some b \<in> set qs
         \<and> name (st a) = Some n \<and> name (st b) = Some n \<and> n \<noteq> []"
  then have decl: "Some a \<in> set (declared cfg)" "Some b \<in> set (declared cfg)"
    by (simp_all add: declared_def)
  have en: "entry_name st (Some a) = Some n" "entry_name st (Some b) = Some n"
    using h by (simp_all add: entry_name_def)
  have names: "map target_name (collectProviderTargets st cfg) =
        first_seen (List.map_filter (entry_name st) (declared cfg))"
    by (simp add: collect_eq comp_def target_of_def)
  have "n \<in> set (map target_name (collectProviderTargets st cfg))"
    unfolding names set_first_seen set_names using decl(1) en(1) by blast
  then obtain t where t: "t \<in> set (collectProviderTargets st cfg)" "target_name t = n"
    by auto
  have uniq: "t' = t" if "t' \<in> set (collectProviderTargets st cfg)" "target_name t' = n" for t'
    using target_in_collect [OF that(1)] target_in_collect [OF t(1)] that(2) t(2) by simp
  show "\<exists>!t. t \<in> set (collectProviderTargets st cfg) \<and> target_name t = n"
    using t uniq by blast
  fix t' assume t': "t' \<in> set (collectProviderTargets st cfg)" "target_name t' = n"
  from target_in_collect [OF t'(1)] t'(2)
  have "references t' = first_seen (entries_named st (declared cfg) n)"
    by (metis ProviderTarget.select_convs(2) target_of_def)
  then show "a \<in> set (references t')" "b \<in> set (references t')"
    using decl en by (simp_all add: set_first_seen set_entries_named)
qed

theorem collectProviderTargets_merges_witness:
  "collectProviderTargets store_same_name config_two_lists
     = [\<lparr>target_name = ''openai'', references = [0, 1], primary = 0\<rparr>]
   \<and> (\<exists>!t. t \<in> set (collectProviderTargets store_same_name config_two_lists)
            \<and> target_name t = ''openai'')
   \<and> references \<lparr>target_name = ''openai'', references = [0, 1], primary = 0\<rparr> \<noteq> []
   \<and> primary \<lparr>target_name = ''openai'', references = [0, 1], primary = 0\<rparr>
       \<in> set (references \<lparr>target_name = ''openai'', references = [0, 1], primary = 0\<rparr>)"
proof -
  let ?t = "\<lparr>target_name = ''openai'', references = [0, 1], primary = 0 :: nat\<rparr>"
  have h: "Providers config_two_lists = Some [Some 0]
         \<and> providers config_two_lists = Some [Some 1, Some 0]
         \<and> Some 0 \<in> set [Some (0::nat)] \<and> Some 1 \<in> set [Some 1, Some (0::nat)]
         \<and> name (store_same_name 0) = Some ''openai''
         \<and> name (store_same_name 1) = Some ''openai'' \<and> ''openai'' \<noteq> []"
    by (simp add: config_two_lists_def store_same_name_def declared_provider_def)
  have ev: "map (target_of store_same_name (declared config_two_lists))
       (first_seen (List.map_filter (entry_name store_same_name) (declared config_two_lists))) =
       [?t]"
    by (simp add: config_two_lists_def store_same_name_def declared_provider_def declared_def
        entry_name_def List.map_filter_def first_seen_def target_of_def entries_named_def)
  note merged = collectProviderTargets_merges [of store_same_name config_two_lists]
  from merged have eq: "collectProviderTargets store_same_name config_two_lists = [?t]"
    unfolding ev by (rule conjunct1)
  from merged h
  have one: "\<exists>!t. t \<in> set (collectProviderTargets store_same_name config_two_lists)
            \<and> target_name t = ''openai''"
    by blast
  from merged
  have "\<forall>t \<in> set (collectProviderTargets store_same_name config_two_lists).
          references t \<noteq> [] \<and> primary t \<in> set (references t)"
    by blast
  moreover have "?t \<in> set (collectProviderTargets store_same_name config_two_lists)"
    unfolding eq by simp
  ultimately have inv: "references ?t \<noteq> [] \<and> primary ?t \<in> set (references ?t)"
    by blast
  from eq one inv show ?thesis by blast
qed

section \<open>Properties of the token estimator\<close>

lemma get_prop_defined: "\<not> nullish v \<Longrightarrow> get_prop v p = Inr (opt_prop v p)"
  by (cases v) (simp_all add: opt_prop_def)

lemma sum_tokens_total:
  "(\<forall>x \<in> set xs. \<exists>n. f x = Inr n) \<Longrightarrow> \<exists>n. sum_tokens f xs = Inr n"
  by (induction xs) (auto simp: bindE_def)

lemma JSON_stringify_string: "v \<noteq> Undefined \<Longrightarrow> \<exists>s. JSON_stringify rt v = Str s"
  by (simp add: JSON_stringify_def)

lemma sum_case_same: "(case m of Inl e \<Rightarrow> Inl e | Inr v \<Rightarrow> Inr v) = m"
  by (cases m) simp_all

lemma sum_tokens_single: "sum_tokens f [x] = f x"
  by (cases "f x") (simp_all add: bindE_def)

lemma sum_tokens_append:
  "sum_tokens f (xs @ ys) =
     bindE (sum_tokens f xs) (\<lambda>a. bindE (sum_tokens f ys) (\<lambda>b. Inr (a + b)))"
  by (induction xs) (auto simp: bindE_def split: sum.splits)

lemma sum_tokens_map: "sum_tokens f (map g xs) = sum_tokens (\<lambda>x. f (g x)) xs"
  by (induction xs) simp_all

lemma sum_tokens_cong:
  "(\<And>x. x \<in> set xs \<Longrightarrow> f x = g x) \<Longrightarrow> sum_tokens f xs = sum_tokens g xs"
  by (induction xs) simp_all

lemma sum_tokens_concat:
  "sum_tokens (\<lambda>x. sum_tokens f (g x)) xs = sum_tokens f (concat (map g xs))"
  by (induction xs) (simp_all add: sum_tokens_append)

lemma sum_tokens_returns:
  "sum_tokens f xs = Inr n \<Longrightarrow> \<forall>x \<in> set xs. \<exists>k. f x = Inr k"
  by (induction xs arbitrary: n) (auto simp: bindE_def split: sum.splits)

lemma sum_tokens_throws:
  "sum_tokens f xs = Inl e \<Longrightarrow> \<exists>x \<in> set xs. f x = Inl e"
  by (induction xs) (auto simp: bindE_def split: sum.splits)

lemma sum_tokens_drop_zero:
  "f x = Inr 0 \<Longrightarrow> sum_tokens f (xs @ x # ys) = sum_tokens f (xs @ ys)"
  by (simp add: sum_tokens_append) (auto simp: bindE_def split: sum.splits)

lemma sum_tokens_replace:
  "f x = f y \<Longrightarrow> sum_tokens f (xs @ x # ys) = sum_tokens f (xs @ y # ys)"
  by (simp add: sum_tokens_append)

text \<open>Each level of the estimator is the sum of the tokenizer over the values it hands
  to it.\<close>

lemma contentPart_tokens_encoded:
  "\<not> nullish p \<Longrightarrow>
   contentPart_tokens rt p = sum_tokens (encode_length rt) (contentPart_encoded rt p)"
  by (simp add: contentPart_tokens_def contentPart_encoded_def get_prop_defined bindE_def
      sum_case_same)

lemma message_tokens_encoded:
  assumes "message_ok m"
  shows "message_tokens rt m = sum_tokens (encode_length rt) (message_encoded rt m)"
proof -
  from assms have g: "get_prop m ''content'' = Inr (opt_prop m ''content'')"
    by (simp add: message_ok_def get_prop_defined)
  show ?thesis
  proof (cases "opt_prop m ''content''")
    case (Arr parts)
    with assms have "\<forall>p \<in> set parts. \<not> nullish p" by (simp add: message_ok_def list_all_iff)
    then have "sum_tokens (contentPart_tokens rt) parts
                 = sum_tokens (\<lambda>p. sum_tokens (encode_length rt) (contentPart_encoded rt p)) parts"
      by (intro sum_tokens_cong) (simp add: contentPart_tokens_encoded)
    with Arr show ?thesis
      by (simp add: message_tokens_def message_encoded_def g bindE_def sum_tokens_concat)
  qed (simp_all add: message_tokens_def message_encoded_def g bindE_def sum_case_same)
qed

lemma system_item_tokens_encoded:
  assumes "\<not> nullish item"
  shows "system_item_tokens rt item = sum_tokens (encode_length rt) (system_item_encoded item)"
proof -
  from assms have g: "\<And>k. get_prop item k = Inr (opt_prop item k)"
    by (simp add: get_prop_defined)
  show ?thesis
    by (cases "opt_prop item ''text''")
       (simp_all add: system_item_tokens_def system_item_encoded_def g bindE_def
          sum_case_same sum_tokens_map)
qed

lemma tool_tokens_encoded:
  assumes "\<not> nullish tool"
  shows "tool_tokens rt tool = sum_tokens (encode_length rt) (tool_encoded rt tool)"
proof -
  from assms have g: "\<And>k. get_prop tool k = Inr (opt_prop tool k)"
    by (simp add: get_prop_defined)
  show ?thesis
    by (simp add: tool_tokens_def tool_encoded_def g sum_tokens_append bindE_def sum_case_same
          cong: if_cong sum.case_cong)
qed

lemma calculateTokenCount_encoded:
  assumes "well_shaped msgs sys tls"
  shows "calculateTokenCount rt msgs sys tls
           = sum_tokens (encode_length rt) (encoded rt msgs sys tls)"
proof -
  let ?enc = "encode_length rt"
  have a: "(case msgs of Arr ms \<Rightarrow> sum_tokens (message_tokens rt) ms | _ \<Rightarrow> Inr 0)
             = sum_tokens ?enc (case msgs of Arr ms \<Rightarrow> concat (map (message_encoded rt) ms) | _ \<Rightarrow> [])"
  proof (cases msgs)
    case (Arr ms)
    with assms have "\<forall>m \<in> set ms. message_ok m" by (simp add: well_shaped_def list_all_iff)
    then have "sum_tokens (message_tokens rt) ms
                 = sum_tokens (\<lambda>m. sum_tokens ?enc (message_encoded rt m)) ms"
      by (intro sum_tokens_cong) (simp add: message_tokens_encoded)
    with Arr show ?thesis by (simp add: sum_tokens_concat)
  qed simp_all
  have b: "(case sys of
              Str s \<Rightarrow> ?enc sys
            | Arr items \<Rightarrow> sum_tokens (system_item_tokens rt) items
            | _ \<Rightarrow> Inr 0)
             = sum_tokens ?enc (case sys of
                                  Str s \<Rightarrow> [Str s]
                                | Arr items \<Rightarrow> concat (map system_item_encoded items)
                                | _ \<Rightarrow> [])"
  proof (cases sys)
    case (Arr items)
    with assms have "\<forall>i \<in> set items. \<not> nullish i" by (simp add: well_shaped_def list_all_iff)
    then have "sum_tokens (system_item_tokens rt) items
                 = sum_tokens (\<lambda>i. sum_tokens ?enc (system_item_encoded i)) items"
      by (intro sum_tokens_cong) (simp add: system_item_tokens_encoded)
    with Arr show ?thesis by (simp add: sum_tokens_concat)
  qed (simp_all add: bindE_def sum_case_same)
  have c: "(if truthy tls
            then (case tls of Arr ts \<Rightarrow> sum_tokens (tool_tokens rt) ts | _ \<Rightarrow> Inl TypeError)
            else Inr 0)
             = sum_tokens ?enc (case tls of Arr ts \<Rightarrow> concat (map (tool_encoded rt) ts) | _ \<Rightarrow> [])"
  proof (cases "truthy tls")
    case False
    then show ?thesis by (cases tls) simp_all
  next
    case True
    with assms obtain ts where ts: "tls = Arr ts" "\<forall>t \<in> set ts. \<not> nullish t"
      by (cases tls) (auto simp: well_shaped_def list_all_iff)
    then have "sum_tokens (tool_tokens rt) ts
                 = sum_tokens (\<lambda>t. sum_tokens ?enc (tool_encoded rt t)) ts"
      by (intro sum_tokens_cong) (simp add: tool_tokens_encoded)
    with ts show ?thesis by (simp add: sum_tokens_concat)
  qed
  show ?thesis
    unfolding calculateTokenCount_def encoded_def a b c sum_tokens_append
    by (auto simp: bindE_def split: sum.splits)
qed

text \<open>The estimator returns only on such inputs.\<close>

lemma get_prop_nullish: "nullish v \<Longrightarrow> get_prop v p = Inl TypeError"
  by (cases v) simp_all

lemma message_tokens_returns:
  assumes "message_tokens rt m = Inr k"
  shows "message_ok m"
proof -
  have nn: "\<not> nullish m"
    using assms by (auto simp: message_tokens_def get_prop_nullish bindE_def)
  then have g: "get_prop m ''content'' = Inr (opt_prop m ''content'')"
    by (simp add: get_prop_defined)
  show ?thesis
  proof (cases "opt_prop m ''content''")
    case (Arr parts)
    with assms have "sum_tokens (contentPart_tokens rt) parts = Inr k"
      by (simp add: message_tokens_def g bindE_def)
    from sum_tokens_returns [OF this]
    have "\<forall>p \<in> set parts. \<not> nullish p"
      by (auto simp: contentPart_tokens_def get_prop_nullish bindE_def)
    with nn Arr show ?thesis by (simp add: message_ok_def list_all_iff)
  qed (use nn in \<open>simp_all add: message_ok_def\<close>)
qed

lemma calculateTokenCount_returns:
  assumes "calculateTokenCount rt msgs sys tls = Inr n"
  shows "well_shaped msgs sys tls"
proof -
  from assms obtain a b c where
    a: "(case msgs of Arr ms \<Rightarrow> sum_tokens (message_tokens rt) ms | _ \<Rightarrow> Inr 0) = Inr a"
    and b: "(case sys of
              Str s \<Rightarrow> encode_length rt sys
            | Arr items \<Rightarrow> sum_tokens (system_item_tokens rt) items
            | _ \<Rightarrow> Inr 0) = Inr b"
    and c: "(if truthy tls
            then (case tls of Arr ts \<Rightarrow> sum_tokens (tool_tokens rt) ts | _ \<Rightarrow> Inl TypeError)
            else Inr 0) = Inr c"
    by (auto simp: calculateTokenCount_def bindE_def split: sum.splits)
  have 1: "case msgs of Arr ms \<Rightarrow> list_all message_ok ms | _ \<Rightarrow> True"
  proof (cases msgs)
    case (Arr ms)
    with a have "sum_tokens (message_tokens rt) ms = Inr a" by simp
    from sum_tokens_returns [OF this] have "\<forall>m \<in> set ms. message_ok m"
      by (auto intro: message_tokens_returns)
    with Arr show ?thesis by (simp add: list_all_iff)
  qed simp_all
  have 2: "case sys of Arr items \<Rightarrow> list_all (\<lambda>item. \<not> nullish item) items | _ \<Rightarrow> True"
  proof (cases sys)
    case (Arr items)
    with b have "sum_tokens (system_item_tokens rt) items = Inr b" by simp
    from sum_tokens_returns [OF this] have "\<forall>i \<in> set items. \<not> nullish i"
      by (auto simp: system_item_tokens_def get_prop_nullish bindE_def)
    with Arr show ?thesis by (simp add: list_all_iff)
  qed simp_all
  have 3: "\<not> truthy tls
          \<or> (case tls of Arr ts \<Rightarrow> list_all (\<lambda>tool. \<not> nullish tool) ts | _ \<Rightarrow> False)"
  proof (cases "truthy tls")
    case False
    then show ?thesis by simp
  next
    case True
    with c obtain ts where ts: "tls = Arr ts" "sum_tokens (tool_tokens rt) ts = Inr c"
      by (cases tls) simp_all
    from sum_tokens_returns [OF ts(2)] have "\<forall>t \<in> set ts. \<not> nullish t"
      by (auto simp: tool_tokens_def get_prop_nullish bindE_def)
    with ts show ?thesis by (simp add: list_all_iff)
  qed
  from 1 2 3 show ?thesis by (simp add: well_shaped_def)
qed

text \<open>The shapes that contribute nothing.\<close>

lemma message_tokens_zero:
  assumes "\<not> nullish m" "\<not> is_string (opt_prop m ''content'')" "\<not> isArray (opt_prop m ''content'')"
  shows "message_tokens rt m = Inr 0"
  using assms
  by (cases "opt_prop m ''content''") (simp_all add: message_tokens_def get_prop_defined bindE_def)

lemma contentPart_tokens_zero:
  assumes "\<not> nullish p" "opt_prop p ''type'' \<noteq> Str ''text''"
    "opt_prop p ''type'' \<noteq> Str ''tool_use''" "opt_prop p ''type'' \<noteq> Str ''tool_result''"
  shows "contentPart_tokens rt p = Inr 0"
  using assms by (simp add: contentPart_tokens_def get_prop_defined bindE_def)

lemma system_item_tokens_zero:
  assumes "\<not> nullish item"
    "opt_prop item ''type'' \<noteq> Str ''text''
     \<or> (\<not> is_string (opt_prop item ''text'') \<and> \<not> isArray (opt_prop item ''text''))"
  shows "system_item_tokens rt item = Inr 0"
  using assms
  by (cases "opt_prop item ''text''")
     (auto simp: system_item_tokens_def get_prop_defined bindE_def)

lemma tool_tokens_zero:
  assumes "\<not> nullish tool" "\<not> truthy (opt_prop tool ''description'')"
    "\<not> truthy (opt_prop tool ''input_schema'')"
  shows "tool_tokens rt tool = Inr 0"
  using assms by (simp add: tool_tokens_def get_prop_defined bindE_def)

lemma calculateTokenCount_messages:
  "sum_tokens (message_tokens rt) ms = sum_tokens (message_tokens rt) ms' \<Longrightarrow>
   calculateTokenCount rt (Arr ms) sys tls = calculateTokenCount rt (Arr ms') sys tls"
  by (simp add: calculateTokenCount_def)

lemma calculateTokenCount_system:
  "sum_tokens (system_item_tokens rt) items = sum_tokens (system_item_tokens rt) items' \<Longrightarrow>
   calculateTokenCount rt msgs (Arr items) tls = calculateTokenCount rt msgs (Arr items') tls"
  by (simp add: calculateTokenCount_def)

lemma calculateTokenCount_tools:
  "sum_tokens (tool_tokens rt) ts = sum_tokens (tool_tokens rt) ts' \<Longrightarrow>
   calculateTokenCount rt msgs sys (Arr ts) = calculateTokenCount rt msgs sys (Arr ts')"
  by (simp add: calculateTokenCount_def)

text \<open>
  Claim C7, as the code has it.  Call an input well shaped when no element of the
  messages, of a content array of a message, of the system prompt or of the tools is
  \<^verbatim>\<open>null\<close> or \<^verbatim>\<open>undefined\<close>, and the tools are falsy or an array.  On a well-shaped input
  the estimator is the sum of the tokenizer over the values it hands to it, in order:
  it throws only what the tokenizer throws on one of them.  It returns a count, an
  integer that is not negative, exactly when the input is well shaped and the
  tokenizer accepts each of these values.  The sum of a name and a description that
  is a string is a string, whatever the name.  The shapes the estimator does not
  recognize contribute zero to the count: messages that are not an array, a system
  prompt that is neither a string nor an array, falsy tools; in the messages a
  message whose content is neither a string nor an array, in a content array a part
  of another type, in the system prompt a segment that is not a text segment or whose
  text is neither a string nor an array, and in the tools a tool with neither
  description nor input schema.
\<close>

theorem calculateTokenCount_well_shaped:
  "(well_shaped msgs sys tls \<longrightarrow>
      calculateTokenCount rt msgs sys tls
        = sum_tokens (encode_length rt) (encoded rt msgs sys tls))
   \<and> (well_shaped msgs sys tls \<and> calculateTokenCount rt msgs sys tls = Inl e \<longrightarrow>
        (\<exists>v \<in> set (encoded rt msgs sys tls). encode_length rt v = Inl e))
   \<and> ((\<exists>n. calculateTokenCount rt msgs sys tls = Inr n \<and> 0 \<le> int n)
        \<longleftrightarrow> well_shaped msgs sys tls
            \<and> (\<forall>v \<in> set (encoded rt msgs sys tls). \<exists>n. encode_length rt v = Inr n))
   \<and> (\<forall>nm d. is_string (js_plus rt nm (Str d)))
   \<and> (\<not> isArray msgs \<longrightarrow>
        calculateTokenCount rt msgs sys tls = calculateTokenCount rt (Arr []) sys tls)
   \<and> (\<not> is_string sys \<and> \<not> isArray sys \<longrightarrow>
        calculateTokenCount rt msgs sys tls = calculateTokenCount rt msgs (Arr []) tls)
   \<and> (\<not> truthy tls \<longrightarrow>
        calculateTokenCount rt msgs sys tls = calculateTokenCount rt msgs sys (Arr []))
   \<and> (\<forall>ms m ms'. \<not> nullish m \<and> \<not> is_string (opt_prop m ''content'')
            \<and> \<not> isArray (opt_prop m ''content'') \<longrightarrow>
          calculateTokenCount rt (Arr (ms @ m # ms')) sys tls
            = calculateTokenCount rt (Arr (ms @ ms')) sys tls)
   \<and> (\<forall>ms m m' ms' ps p ps'.
          \<not> nullish m \<and> \<not> nullish m'
            \<and> opt_prop m ''content'' = Arr (ps @ p # ps')
            \<and> opt_prop m' ''content'' = Arr (ps @ ps')
            \<and> \<not> nullish p \<and> opt_prop p ''type'' \<noteq> Str ''text''
            \<and> opt_prop p ''type'' \<noteq> Str ''tool_use''
            \<and> opt_prop p ''type'' \<noteq> Str ''tool_result'' \<longrightarrow>
          calculateTokenCount rt (Arr (ms @ m # ms')) sys tls
            = calculateTokenCount rt (Arr (ms @ m' # ms')) sys tls)
   \<and> (\<forall>items item items'. \<not> nullish item
            \<and> (opt_prop item ''type'' \<noteq> Str ''text''
                \<or> (\<not> is_string (opt_prop item ''text'') \<and> \<not> isArray (opt_prop item ''text'')))
            \<longrightarrow>
          calculateTokenCount rt msgs (Arr (items @ item # items')) tls
            = calculateTokenCount rt msgs (Arr (items @ items')) tls)
   \<and> (\<forall>ts tool ts'. \<not> nullish tool \<and> \<not> truthy (opt_prop tool ''description'')
            \<and> \<not> truthy (opt_prop tool ''input_schema'') \<longrightarrow>
          calculateTokenCount rt msgs sys (Arr (ts @ tool # ts'))
            = calculateTokenCount rt msgs sys (Arr (ts @ ts')))"
proof (intro conjI allI impI)
  assume "well_shaped msgs sys tls"
  then show "calculateTokenCount rt msgs sys tls
        = sum_tokens (encode_length rt) (encoded rt msgs sys tls)"
    by (rule calculateTokenCount_encoded)
next
  assume h: "well_shaped msgs sys tls \<and> calculateTokenCount rt msgs sys tls = Inl e"
  then have "well_shaped msgs sys tls" ..
  from calculateTokenCount_encoded [OF this, of rt] h
  have "sum_tokens (encode_length rt) (encoded rt msgs sys tls) = Inl e"
    by simp
  then show "\<exists>v \<in> set (encoded rt msgs sys tls). encode_length rt v = Inl e"
    by (rule sum_tokens_throws)
next
  show "(\<exists>n. calculateTokenCount rt msgs sys tls = Inr n \<and> 0 \<le> int n)
        \<longleftrightarrow> well_shaped msgs sys tls
            \<and> (\<forall>v \<in> set (encoded rt msgs sys tls). \<exists>n. encode_length rt v = Inr n)"
  proof
    assume "\<exists>n. calculateTokenCount rt msgs sys tls = Inr n \<and> 0 \<le> int n"
    then obtain n where n: "calculateTokenCount rt msgs sys tls = Inr n" by blast
    then have ok: "well_shaped msgs sys tls" by (rule calculateTokenCount_returns)
    with n have "sum_tokens (encode_length rt) (encoded rt msgs sys tls) = Inr n"
      by (simp add: calculateTokenCount_encoded)
    from sum_tokens_returns [OF this] ok
    show "well_shaped msgs sys tls
            \<and> (\<forall>v \<in> set (encoded rt msgs sys tls). \<exists>n. encode_length rt v = Inr n)"
      by simp
  next
    assume h: "well_shaped msgs sys tls
            \<and> (\<forall>v \<in> set (encoded rt msgs sys tls). \<exists>n. encode_length rt v = Inr n)"
    then have "\<exists>n. sum_tokens (encode_length rt) (encoded rt msgs sys tls) = Inr n"
      by (intro sum_tokens_total) simp
    with h show "\<exists>n. calculateTokenCount rt msgs sys tls = Inr n \<and> 0 \<le> int n"
      by (simp add: calculateTokenCount_encoded)
  qed
next
  fix nm d
  show "is_string (js_plus rt nm (Str d))" by (simp add: js_plus_def)
next
  assume "\<not> isArray msgs"
  then show "calculateTokenCount rt msgs sys tls = calculateTokenCount rt (Arr []) sys tls"
    by (cases msgs) (simp_all add: calculateTokenCount_def)
next
  assume "\<not> is_string sys \<and> \<not> isArray sys"
  then show "calculateTokenCount rt msgs sys tls = calculateTokenCount rt msgs (Arr []) tls"
    by (cases sys) (simp_all add: calculateTokenCount_def)
next
  assume "\<not> truthy tls"
  then show "calculateTokenCount rt msgs sys tls = calculateTokenCount rt msgs sys (Arr [])"
    by (simp add: calculateTokenCount_def)
next
  fix ms m ms'
  assume "\<not> nullish m \<and> \<not> is_string (opt_prop m ''content'')
            \<and> \<not> isArray (opt_prop m ''content'')"
  then have "message_tokens rt m = Inr 0" by (simp add: message_tokens_zero)
  then show "calculateTokenCount rt (Arr (ms @ m # ms')) sys tls
            = calculateTokenCount rt (Arr (ms @ ms')) sys tls"
    by (intro calculateTokenCount_messages sum_tokens_drop_zero)
next
  fix ms m m' ms' ps p ps'
  assume h: "\<not> nullish m \<and> \<not> nullish m'
            \<and> opt_prop m ''content'' = Arr (ps @ p # ps')
            \<and> opt_prop m' ''content'' = Arr (ps @ ps')
            \<and> \<not> nullish p \<and> opt_prop p ''type'' \<noteq> Str ''text''
            \<and> opt_prop p ''type'' \<noteq> Str ''tool_use''
            \<and> opt_prop p ''type'' \<noteq> Str ''tool_result''"
  then have "contentPart_tokens rt p = Inr 0" by (simp add: contentPart_tokens_zero)
  then have "sum_tokens (contentPart_tokens rt) (ps @ p # ps')
               = sum_tokens (contentPart_tokens rt) (ps @ ps')"
    by (rule sum_tokens_drop_zero)
  with h have "message_tokens rt m = message_tokens rt m'"
    by (simp add: message_tokens_def get_prop_defined bindE_def)
  then show "calculateTokenCount rt (Arr (ms @ m # ms')) sys tls
            = calculateTokenCount rt (Arr (ms @ m' # ms')) sys tls"
    by (intro calculateTokenCount_messages sum_tokens_replace)
next
  fix items item items'
  assume "\<not> nullish item
            \<and> (opt_prop item ''type'' \<noteq> Str ''text''
                \<or> (\<not> is_string (opt_prop item ''text'') \<and> \<not> isArray (opt_prop item ''text'')))"
  then have "system_item_tokens rt item = Inr 0" by (simp add: system_item_tokens_zero)
  then show "calculateTokenCount rt msgs (Arr (items @ item # items')) tls
            = calculateTokenCount rt msgs (Arr (items @ items')) tls"
    by (intro calculateTokenCount_system sum_tokens_drop_zero)
next
  fix ts tool ts'
  assume "\<not> nullish tool \<and> \<not> truthy (opt_prop tool ''description'')
            \<and> \<not> truthy (opt_prop tool ''input_schema'')"
  then have "tool_tokens rt tool = Inr 0" by (simp add: tool_tokens_zero)
  then show "calculateTokenCount rt msgs sys (Arr (ts @ tool # ts'))
            = calculateTokenCount rt msgs sys (Arr (ts @ ts'))"
    by (intro calculateTokenCount_tools sum_tokens_drop_zero)
qed


theorem calculateTokenCount_well_shaped_witness:
  "calculateTokenCount char_tokenizer sample_messages sample_system sample_tools = Inr 19
   \<and> (\<exists>n. calculateTokenCount char_tokenizer (Arr []) Undefined nameless_tools = Inr n
          \<and> 0 \<le> int n)
   \<and> (\<exists>v \<in> set (encoded special_tokenizer special_messages Undefined Undefined).
         encode_length special_tokenizer v = Inl TokenizerFailure)
   \<and> \<not> (\<exists>n. calculateTokenCount special_tokenizer special_messages Undefined Undefined = Inr n
            \<and> 0 \<le> int n)
   \<and> \<not> (\<exists>n. calculateTokenCount char_tokenizer (Arr [Null]) Undefined Undefined = Inr n
            \<and> 0 \<le> int n)
   \<and> calculateTokenCount char_tokenizer Null sample_system sample_tools
       = calculateTokenCount char_tokenizer (Arr []) sample_system sample_tools
   \<and> calculateTokenCount char_tokenizer sample_messages (Num 3) sample_tools
       = calculateTokenCount char_tokenizer sample_messages (Arr []) sample_tools
   \<and> calculateTokenCount char_tokenizer sample_messages sample_system Undefined
       = calculateTokenCount char_tokenizer sample_messages sample_system (Arr [])
   \<and> calculateTokenCount char_tokenizer
        (Arr [Obj [(''content'', Str ''hello'')], Num 5]) sample_system sample_tools
       = calculateTokenCount char_tokenizer
           (Arr [Obj [(''content'', Str ''hello'')]]) sample_system sample_tools
   \<and> calculateTokenCount char_tokenizer
        (Arr [Obj [(''content'', Arr [Obj [(''type'', Str ''text''), (''text'', Str ''hi'')],
                                      Obj [(''type'', Str ''image''), (''source'', Null)]])]])
        sample_system sample_tools
       = calculateTokenCount char_tokenizer
           (Arr [Obj [(''content'', Arr [Obj [(''type'', Str ''text''), (''text'', Str ''hi'')]])]])
           sample_system sample_tools
   \<and> calculateTokenCount char_tokenizer sample_messages
        (Arr [Obj [(''type'', Str ''text''), (''text'', Str ''sys'')], Str ''junk'']) sample_tools
       = calculateTokenCount char_tokenizer sample_messages
           (Arr [Obj [(''type'', Str ''text''), (''text'', Str ''sys'')]]) sample_tools
   \<and> calculateTokenCount char_tokenizer sample_messages sample_system
        (Arr [Obj [(''name'', Str ''t'')]])
       = calculateTokenCount char_tokenizer sample_messages sample_system (Arr [])"
proof -
  let ?ct = char_tokenizer
  have ws: "well_shaped sample_messages sample_system sample_tools"
    by (simp add: well_shaped_def sample_messages_def sample_system_def sample_tools_def
        message_ok_def opt_prop_def)
  from calculateTokenCount_well_shaped [of sample_messages sample_system sample_tools ?ct TypeError,
      THEN conjunct1] ws
  have "calculateTokenCount ?ct sample_messages sample_system sample_tools
          = sum_tokens (encode_length ?ct) (encoded ?ct sample_messages sample_system sample_tools)"
    by blast
  also have "\<dots> = Inr 19"
    by (simp add: encoded_def message_encoded_def contentPart_encoded_def
        system_item_encoded_def tool_encoded_def sample_messages_def sample_system_def
        sample_tools_def opt_prop_def JSON_stringify_def js_plus_def js_string_def
        char_tokenizer_def bindE_def)
  finally have a: "calculateTokenCount ?ct sample_messages sample_system sample_tools = Inr 19" .
  have nameless: "well_shaped (Arr []) Undefined nameless_tools
      \<and> (\<forall>v \<in> set (encoded ?ct (Arr []) Undefined nameless_tools).
            \<exists>n. encode_length ?ct v = Inr n)"
    by (simp add: well_shaped_def nameless_tools_def encoded_def tool_encoded_def opt_prop_def
        js_plus_def js_string_def char_tokenizer_def)
  from calculateTokenCount_well_shaped [of "Arr []" Undefined nameless_tools ?ct TypeError,
      THEN conjunct2, THEN conjunct2, THEN conjunct1] nameless
  have b: "\<exists>n. calculateTokenCount ?ct (Arr []) Undefined nameless_tools = Inr n \<and> 0 \<le> int n"
    by blast
  have special: "well_shaped special_messages Undefined Undefined
      \<and> calculateTokenCount special_tokenizer special_messages Undefined Undefined
          = Inl TokenizerFailure"
    by (simp add: well_shaped_def special_messages_def message_ok_def opt_prop_def
        calculateTokenCount_def message_tokens_def special_tokenizer_def char_tokenizer_def
        bindE_def)
  from calculateTokenCount_well_shaped [of special_messages Undefined Undefined
      special_tokenizer TokenizerFailure, THEN conjunct2, THEN conjunct1] special
  have c: "\<exists>v \<in> set (encoded special_tokenizer special_messages Undefined Undefined).
         encode_length special_tokenizer v = Inl TokenizerFailure"
    by blast
  have refused: "\<not> (\<forall>v \<in> set (encoded special_tokenizer special_messages Undefined Undefined).
                      \<exists>n. encode_length special_tokenizer v = Inr n)"
    by (simp add: encoded_def message_encoded_def special_messages_def opt_prop_def
        special_tokenizer_def char_tokenizer_def)
  from conjunct1 [OF conjunct2 [OF conjunct2 [OF calculateTokenCount_well_shaped
      [of special_messages Undefined Undefined special_tokenizer TypeError]]]] refused
  have d: "\<not> (\<exists>n. calculateTokenCount special_tokenizer special_messages Undefined Undefined
                  = Inr n \<and> 0 \<le> int n)"
    by simp
  have bad: "\<not> well_shaped (Arr [Null]) Undefined Undefined"
    by (simp add: well_shaped_def message_ok_def)
  from conjunct1 [OF conjunct2 [OF conjunct2 [OF calculateTokenCount_well_shaped
      [of "Arr [Null]" Undefined Undefined ?ct TypeError]]]] bad
  have e: "\<not> (\<exists>n. calculateTokenCount ?ct (Arr [Null]) Undefined Undefined = Inr n
                  \<and> 0 \<le> int n)"
    by simp
  have h1: "\<not> isArray Null" by simp
  have h2: "\<not> is_string (Num 3) \<and> \<not> isArray (Num 3)" by simp
  have h3: "\<not> truthy Undefined" by simp
  from calculateTokenCount_well_shaped [of Null sample_system sample_tools ?ct TypeError,
      THEN conjunct2, THEN conjunct2, THEN conjunct2, THEN conjunct2, THEN conjunct1] h1
  have f: "calculateTokenCount ?ct Null sample_system sample_tools
       = calculateTokenCount ?ct (Arr []) sample_system sample_tools"
    by blast
  from calculateTokenCount_well_shaped [of sample_messages "Num 3" sample_tools ?ct TypeError,
      THEN conjunct2, THEN conjunct2, THEN conjunct2, THEN conjunct2, THEN conjunct2, THEN conjunct1] h2
  have g: "calculateTokenCount ?ct sample_messages (Num 3) sample_tools
       = calculateTokenCount ?ct sample_messages (Arr []) sample_tools"
    by blast
  from calculateTokenCount_well_shaped [of sample_messages sample_system Undefined ?ct TypeError,
      THEN conjunct2, THEN conjunct2, THEN conjunct2, THEN conjunct2, THEN conjunct2, THEN conjunct2, THEN conjunct1] h3
  have i: "calculateTokenCount ?ct sample_messages sample_system Undefined
       = calculateTokenCount ?ct sample_messages sample_system (Arr [])"
    by blast
  note rule = calculateTokenCount_well_shaped [of sample_messages sample_system sample_tools ?ct TypeError]
  have hm: "\<not> nullish (Num 5) \<and> \<not> is_string (opt_prop (Num 5) ''content'')
            \<and> \<not> isArray (opt_prop (Num 5) ''content'')"
    by (simp add: opt_prop_def)
  from rule [THEN conjunct2, THEN conjunct2, THEN conjunct2, THEN conjunct2, THEN conjunct2, THEN conjunct2, THEN conjunct2, THEN conjunct1] hm
  have "calculateTokenCount ?ct (Arr ([Obj [(''content'', Str ''hello'')]] @ Num 5 # []))
          sample_system sample_tools
        = calculateTokenCount ?ct (Arr ([Obj [(''content'', Str ''hello'')]] @ []))
          sample_system sample_tools"
    by blast
  then have j: "calculateTokenCount ?ct (Arr [Obj [(''content'', Str ''hello'')], Num 5])
          sample_system sample_tools
        = calculateTokenCount ?ct (Arr [Obj [(''content'', Str ''hello'')]])
          sample_system sample_tools"
    by simp
  let ?text = "Obj [(''type'', Str ''text''), (''text'', Str ''hi'')]"
  let ?image = "Obj [(''type'', Str ''image''), (''source'', Null)]"
  have hp: "\<not> nullish (Obj [(''content'', Arr [?text, ?image])])
            \<and> \<not> nullish (Obj [(''content'', Arr [?text])])
            \<and> opt_prop (Obj [(''content'', Arr [?text, ?image])]) ''content''
                = Arr ([?text] @ ?image # [])
            \<and> opt_prop (Obj [(''content'', Arr [?text])]) ''content'' = Arr ([?text] @ [])
            \<and> \<not> nullish ?image \<and> opt_prop ?image ''type'' \<noteq> Str ''text''
            \<and> opt_prop ?image ''type'' \<noteq> Str ''tool_use''
            \<and> opt_prop ?image ''type'' \<noteq> Str ''tool_result''"
    by (simp add: opt_prop_def)
  from rule [THEN conjunct2, THEN conjunct2, THEN conjunct2, THEN conjunct2, THEN conjunct2, THEN conjunct2, THEN conjunct2, THEN conjunct2, THEN conjunct1] hp
  have "calculateTokenCount ?ct (Arr ([] @ Obj [(''content'', Arr [?text, ?image])] # []))
          sample_system sample_tools
        = calculateTokenCount ?ct (Arr ([] @ Obj [(''content'', Arr [?text])] # []))
          sample_system sample_tools"
    by blast
  then have k: "calculateTokenCount ?ct (Arr [Obj [(''content'', Arr [?text, ?image])]])
          sample_system sample_tools
        = calculateTokenCount ?ct (Arr [Obj [(''content'', Arr [?text])]])
          sample_system sample_tools"
    by simp
  let ?seg = "Obj [(''type'', Str ''text''), (''text'', Str ''sys'')]"
  have hs: "\<not> nullish (Str ''junk'')
            \<and> (opt_prop (Str ''junk'') ''type'' \<noteq> Str ''text''
                \<or> (\<not> is_string (opt_prop (Str ''junk'') ''text'')
                    \<and> \<not> isArray (opt_prop (Str ''junk'') ''text'')))"
    by (simp add: opt_prop_def)
  from rule [THEN conjunct2, THEN conjunct2, THEN conjunct2, THEN conjunct2, THEN conjunct2, THEN conjunct2, THEN conjunct2, THEN conjunct2, THEN conjunct2, THEN conjunct1] hs
  have "calculateTokenCount ?ct sample_messages (Arr ([?seg] @ Str ''junk'' # [])) sample_tools
        = calculateTokenCount ?ct sample_messages (Arr ([?seg] @ [])) sample_tools"
    by blast
  then have l: "calculateTokenCount ?ct sample_messages (Arr [?seg, Str ''junk'']) sample_tools
        = calculateTokenCount ?ct sample_messages (Arr [?seg]) sample_tools"
    by simp
  have ht: "\<not> nullish (Obj [(''name'', Str ''t'')])
            \<and> \<not> truthy (opt_prop (Obj [(''name'', Str ''t'')]) ''description'')
            \<and> \<not> truthy (opt_prop (Obj [(''name'', Str ''t'')]) ''input_schema'')"
    by (simp add: opt_prop_def)
  from rule [THEN conjunct2, THEN conjunct2, THEN conjunct2, THEN conjunct2, THEN conjunct2, THEN conjunct2, THEN conjunct2, THEN conjunct2, THEN conjunct2, THEN conjunct2] ht
  have "calculateTokenCount ?ct sample_messages sample_system
          (Arr ([] @ Obj [(''name'', Str ''t'')] # []))
        = calculateTokenCount ?ct sample_messages sample_system (Arr ([] @ []))"
    by blast
  then have m: "calculateTokenCount ?ct sample_messages sample_system
          (Arr [Obj [(''name'', Str ''t'')]])
        = calculateTokenCount ?ct sample_messages sample_system (Arr [])"
    by simp
  show ?thesis
    by (intro conjI) (rule a b c d e f g i j k l m)+
qed

text \<open>
  Claim C7 as stated fails: the estimator reads a field of every element of the three
  arrays and calls \<^verbatim>\<open>forEach\<close> on every truthy \<^verbatim>\<open>tools\<close>.  A \<^verbatim>\<open>null\<close> element of the messages
  or of the system prompt, and tools that are an object, raise a \<^verbatim>\<open>TypeError\<close>; and what
  the tokenizer throws on a text leaves the estimator.
\<close>

theorem calculateTokenCount_raises:
  "calculateTokenCount char_tokenizer (Arr [Null]) Undefined Undefined = Inl TypeError
   \<and> calculateTokenCount char_tokenizer (Arr []) (Arr [Null]) Undefined = Inl TypeError
   \<and> calculateTokenCount char_tokenizer (Arr []) Undefined (Obj []) = Inl TypeError
   \<and> calculateTokenCount special_tokenizer special_messages Undefined Undefined
       = Inl TokenizerFailure"
  by (simp add: calculateTokenCount_def message_tokens_def system_item_tokens_def bindE_def
      special_messages_def special_tokenizer_def char_tokenizer_def)

text \<open>The count of the sample conversation, one token for each character.\<close>

lemma calculateTokenCount_sample:
  "calculateTokenCount char_tokenizer sample_messages sample_system sample_tools = Inr 19"
  by (simp add: calculateTokenCount_def message_tokens_def system_item_tokens_def bindE_def
      tool_tokens_def contentPart_tokens_def char_tokenizer_def sample_messages_def
      sample_system_def sample_tools_def JSON_stringify_def js_plus_def js_string_def)

section \<open>Properties of the routing rules\<close>

text \<open>
  Claim C2 (the code misses the claim).  The compound selector lowers the case of the
  stored provider and model names only, and compares them with the parts of the
  requested string as they are written.  The request \<^verbatim>\<open>OpenAI,GPT-4\<close> therefore finds no
  provider \<^verbatim>\<open>openai\<close> with the model \<^verbatim>\<open>gpt-4\<close>, and the requested string comes back
  unchanged, where the claim gives \<^verbatim>\<open>openai,gpt-4\<close>.
\<close>

theorem compound_selector_uppercase_request:
  "getUseModel char_tokenizer store_same_name (request_for ''OpenAI,GPT-4'') 0 example_config None
     = Inr (Some ''OpenAI,GPT-4'', request_for ''OpenAI,GPT-4'')"
  by (simp add: getUseModel_def request_for_def compound_selector_def example_config_def
      store_same_name_def declared_provider_def toLowerCase_def lower_char_def bindE_def
      split.simps)

text \<open>The same request written in lower case finds the provider and the model.\<close>

lemma compound_selector_lowercase_request:
  "getUseModel char_tokenizer store_same_name (request_for ''openai,gpt-4'') 0 example_config None
     = Inr (Some ''openai,gpt-4'', request_for ''openai,gpt-4'')"
  by (simp add: getUseModel_def request_for_def compound_selector_def example_config_def
      store_same_name_def declared_provider_def toLowerCase_def lower_char_def bindE_def
      split.simps)







section \<open>The subagent directive\<close>









section \<open>Properties of the credential overlay\<close>

lemma overwrite_credentials_at:
  "overwrite_credentials T refs os a =
     (if a \<in> set refs then (os a)\<lparr>api_key := Some T, apiKey := Some T\<rparr> else os a)"
  unfolding overwrite_credentials_def
proof (induction refs arbitrary: os)
  case Nil
  show ?case by simp
next
  case (Cons r refs)
  have "fold (\<lambda>ref os. os(ref := (os ref)\<lparr>api_key := Some T, apiKey := Some T\<rparr>)) (r # refs) os a
        = fold (\<lambda>ref os. os(ref := (os ref)\<lparr>api_key := Some T, apiKey := Some T\<rparr>)) refs
            (os(r := (os r)\<lparr>api_key := Some T, apiKey := Some T\<rparr>)) a"
    by simp
  also have "\<dots> = (if a \<in> set refs
                    then ((os(r := (os r)\<lparr>api_key := Some T, apiKey := Some T\<rparr>)) a)
                           \<lparr>api_key := Some T, apiKey := Some T\<rparr>
                    else (os(r := (os r)\<lparr>api_key := Some T, apiKey := Some T\<rparr>)) a)"
    by (rule Cons.IH)
  also have "\<dots> = (if a \<in> set (r # refs) then (os a)\<lparr>api_key := Some T, apiKey := Some T\<rparr> else os a)"
    by simp
  finally show ?case .
qed

lemma currentKey_prepared:
  "currentKey (ensure_stack (snapshot_static p)) = currentKey p"
  by (simp add: currentKey_def ensure_stack_def snapshot_static_def stack_of_def
           split: option.splits)

lemma stack_of_prepared: "stack_of (ensure_stack (snapshot_static p)) = stack_of p"
  by (simp add: ensure_stack_def snapshot_static_def stack_of_def)

lemma static_prepared:
  "static_api_key (ensure_stack (snapshot_static p)) =
     (if static_api_key p = None
      then Some (case api_key p of Some k \<Rightarrow> Some k | None \<Rightarrow> apiKey p)
      else static_api_key p)"
  by (simp add: ensure_stack_def snapshot_static_def)

lemma prepared_idem:
  "ensure_stack (snapshot_static (ensure_stack (snapshot_static p))) = ensure_stack (snapshot_static p)"
  by (simp add: ensure_stack_def snapshot_static_def stack_of_def)

lemma prepared_credentials:
  "api_key (ensure_stack (snapshot_static p)) = api_key p"
  "apiKey (ensure_stack (snapshot_static p)) = apiKey p"
  "name (ensure_stack (snapshot_static p)) = name p"
  "models (ensure_stack (snapshot_static p)) = models p"
  by (simp_all add: ensure_stack_def snapshot_static_def)

lemma apply_dynamic_key_skips:
  assumes "currentKey (objects w (primary tgt)) = Some T"
  shows "apply_dynamic_key server rid T tgt (w, ovs) =
           (w\<lparr>objects := (objects w)
                 (primary tgt := ensure_stack (snapshot_static (objects w (primary tgt))))\<rparr>, ovs)"
  using assms by (simp add: apply_dynamic_key_def Let_def currentKey_prepared)

lemma apply_dynamic_key_applies:
  assumes "currentKey (objects w (primary tgt)) \<noteq> Some T"
  shows "apply_dynamic_key server rid T tgt (w, ovs) =
           (w\<lparr>objects :=
                overwrite_credentials T (references tgt)
                  ((objects w)(primary tgt :=
                     (ensure_stack (snapshot_static (objects w (primary tgt))))
                       \<lparr>dynamic_api_key_stack :=
                          Some (stack_of (objects w (primary tgt))
                                @ [\<lparr>requestId = rid, newKey = T\<rparr>])\<rparr>)),
              provider_updates := provider_updates w @
                (case server of
                   None \<Rightarrow> []
                 | Some getProvider \<Rightarrow>
                     if getProvider (target_name tgt) then [(target_name tgt, T)] else [])\<rparr>,
            ovs @ [\<lparr>target = tgt, override_requestId = rid\<rparr>])"
  using assms
  by (simp add: apply_dynamic_key_def Let_def currentKey_prepared stack_of_prepared)

text \<open>What one application leaves untouched.\<close>

lemma apply_dynamic_key_frame:
  assumes "a \<noteq> primary tgt" "a \<notin> set (references tgt)"
  shows "objects (fst (apply_dynamic_key server rid T tgt s)) a = objects (fst s) a"
proof (cases "currentKey (objects (fst s) (primary tgt)) = Some T")
  case True
  from apply_dynamic_key_skips [OF True, of server rid "snd s"] assms show ?thesis by simp
next
  case False
  from apply_dynamic_key_applies [OF False, of server rid "snd s"] assms show ?thesis
    by (simp add: overwrite_credentials_at)
qed

lemma apply_dynamic_key_static:
  assumes "static_api_key (objects (fst s) a) \<noteq> None"
  shows "static_api_key (objects (fst (apply_dynamic_key server rid T tgt s)) a)
           = static_api_key (objects (fst s) a)"
proof (cases "currentKey (objects (fst s) (primary tgt)) = Some T")
  case True
  from apply_dynamic_key_skips [OF True, of server rid "snd s"] assms show ?thesis
    by (auto simp: static_prepared)
next
  case False
  from apply_dynamic_key_applies [OF False, of server rid "snd s"] assms show ?thesis
    by (auto simp: overwrite_credentials_at static_prepared)
qed

lemma apply_dynamic_key_name:
  "name (objects (fst (apply_dynamic_key server rid T tgt s)) a) = name (objects (fst s) a)"
proof (cases "currentKey (objects (fst s) (primary tgt)) = Some T")
  case True
  from apply_dynamic_key_skips [OF True, of server rid "snd s"] show ?thesis
    by (simp add: prepared_credentials)
next
  case False
  from apply_dynamic_key_applies [OF False, of server rid "snd s"] show ?thesis
    by (simp add: overwrite_credentials_at prepared_credentials)
qed

lemma apply_dynamic_key_overrides_grow:
  "\<exists>more. snd (apply_dynamic_key server rid T tgt s) = snd s @ more"
proof (cases "currentKey (objects (fst s) (primary tgt)) = Some T")
  case True
  from apply_dynamic_key_skips [OF True, of server rid "snd s"] show ?thesis by simp
next
  case False
  from apply_dynamic_key_applies [OF False, of server rid "snd s"] show ?thesis by simp
qed


text \<open>The loop over the targets.\<close>

lemma overlay_loop_frame:
  "(\<forall>t \<in> set ts. a \<noteq> primary t \<and> a \<notin> set (references t)) \<Longrightarrow>
   objects (fst (fold (apply_dynamic_key server rid T) ts s)) a = objects (fst s) a"
  by (induction ts arbitrary: s) (simp_all add: apply_dynamic_key_frame)

lemma overlay_loop_static:
  "static_api_key (objects (fst s) a) \<noteq> None \<Longrightarrow>
   static_api_key (objects (fst (fold (apply_dynamic_key server rid T) ts s)) a)
     = static_api_key (objects (fst s) a)"
proof (induction ts arbitrary: s)
  case Nil
  show ?case by simp
next
  case (Cons t ts)
  from apply_dynamic_key_static [OF Cons.prems, of server rid T t]
  have step: "static_api_key (objects (fst (apply_dynamic_key server rid T t s)) a)
                = static_api_key (objects (fst s) a)" .
  with Cons.prems have "static_api_key (objects (fst (apply_dynamic_key server rid T t s)) a) \<noteq> None"
    by simp
  from Cons.IH [OF this] step show ?case by simp
qed

lemma overlay_loop_overrides_grow:
  "\<exists>more. snd (fold (apply_dynamic_key server rid T) ts s) = snd s @ more"
proof (induction ts arbitrary: s)
  case Nil
  show ?case by simp
next
  case (Cons t ts)
  from apply_dynamic_key_overrides_grow [of server rid T t s]
  obtain m1 where m1: "snd (apply_dynamic_key server rid T t s) = snd s @ m1" ..
  from Cons.IH [of "apply_dynamic_key server rid T t s"]
  obtain m2 where "snd (fold (apply_dynamic_key server rid T) ts (apply_dynamic_key server rid T t s))
                     = snd (apply_dynamic_key server rid T t s) @ m2" ..
  with m1 show ?case by simp
qed

lemma overlay_loop_target:
  assumes split: "ts = pre @ t # post"
    and apart: "\<forall>t' \<in> set pre \<union> set post.
                  \<forall>a \<in> insert (primary t) (set (references t)).
                    a \<noteq> primary t' \<and> a \<notin> set (references t')"
    and differs: "currentKey (objects (fst s) (primary t)) \<noteq> Some T"
  shows "(\<forall>a \<in> insert (primary t) (set (references t)).
            objects (fst (fold (apply_dynamic_key server rid T) ts s)) a =
            overwrite_credentials T (references t)
              ((objects (fst s))(primary t :=
                 (ensure_stack (snapshot_static (objects (fst s) (primary t))))
                   \<lparr>dynamic_api_key_stack :=
                      Some (stack_of (objects (fst s) (primary t))
                            @ [\<lparr>requestId = rid, newKey = T\<rparr>])\<rparr>)) a)
         \<and> \<lparr>target = t, override_requestId = rid\<rparr>
             \<in> set (snd (fold (apply_dynamic_key server rid T) ts s))"
proof -
  let ?F = "apply_dynamic_key server rid T"
  let ?mid = "fold ?F pre s"
  have before: "objects (fst ?mid) a = objects (fst s) a"
    if "a \<in> insert (primary t) (set (references t))" for a
    using that apart by (intro overlay_loop_frame) auto
  have after: "objects (fst (fold ?F post (?F t ?mid))) a = objects (fst (?F t ?mid)) a"
    if "a \<in> insert (primary t) (set (references t))" for a
    using that apart by (intro overlay_loop_frame) auto
  have whole: "fold ?F ts s = fold ?F post (?F t ?mid)" using split by simp
  have "currentKey (objects (fst ?mid) (primary t)) \<noteq> Some T"
    using differs before [of "primary t"] by simp
  from apply_dynamic_key_applies [OF this, of server rid "snd ?mid"]
  have step: "?F t ?mid =
           ((fst ?mid)\<lparr>objects :=
                overwrite_credentials T (references t)
                  ((objects (fst ?mid))(primary t :=
                     (ensure_stack (snapshot_static (objects (fst ?mid) (primary t))))
                       \<lparr>dynamic_api_key_stack :=
                          Some (stack_of (objects (fst ?mid) (primary t))
                                @ [\<lparr>requestId = rid, newKey = T\<rparr>])\<rparr>)),
              provider_updates := provider_updates (fst ?mid) @
                (case server of
                   None \<Rightarrow> []
                 | Some getProvider \<Rightarrow>
                     if getProvider (target_name t) then [(target_name t, T)] else [])\<rparr>,
            snd ?mid @ [\<lparr>target = t, override_requestId = rid\<rparr>])"
    by simp
  have objs: "objects (fst (fold ?F ts s)) a =
            overwrite_credentials T (references t)
              ((objects (fst s))(primary t :=
                 (ensure_stack (snapshot_static (objects (fst s) (primary t))))
                   \<lparr>dynamic_api_key_stack :=
                      Some (stack_of (objects (fst s) (primary t))
                            @ [\<lparr>requestId = rid, newKey = T\<rparr>])\<rparr>)) a"
    if a: "a \<in> insert (primary t) (set (references t))" for a
  proof -
    have "objects (fst (fold ?F ts s)) a = objects (fst (?F t ?mid)) a"
      using whole after [OF a] by simp
    also have "\<dots> = overwrite_credentials T (references t)
                  ((objects (fst ?mid))(primary t :=
                     (ensure_stack (snapshot_static (objects (fst ?mid) (primary t))))
                       \<lparr>dynamic_api_key_stack :=
                          Some (stack_of (objects (fst ?mid) (primary t))
                                @ [\<lparr>requestId = rid, newKey = T\<rparr>])\<rparr>)) a"
      by (simp add: step)
    also have "\<dots> = overwrite_credentials T (references t)
              ((objects (fst s))(primary t :=
                 (ensure_stack (snapshot_static (objects (fst s) (primary t))))
                   \<lparr>dynamic_api_key_stack :=
                      Some (stack_of (objects (fst s) (primary t))
                            @ [\<lparr>requestId = rid, newKey = T\<rparr>])\<rparr>)) a"
      using before [of "primary t"] before [OF a]
      by (simp add: overwrite_credentials_at)
    finally show ?thesis .
  qed
  from overlay_loop_overrides_grow [of server rid T post "?F t ?mid"]
  obtain more where "snd (fold ?F post (?F t ?mid)) = snd (?F t ?mid) @ more" ..
  then have "\<lparr>target = t, override_requestId = rid\<rparr> \<in> set (snd (fold ?F ts s))"
    using whole by (simp add: step)
  with objs show ?thesis by blast
qed


lemma collect_names_distinct: "distinct (map target_name (collectProviderTargets st cfg))"
proof -
  have "map target_name (collectProviderTargets st cfg) =
        first_seen (List.map_filter (entry_name st) (declared cfg))"
    by (simp add: collect_eq comp_def target_of_def)
  then show ?thesis by (simp add: distinct_first_seen)
qed

lemma collect_target_references:
  assumes "t \<in> set (collectProviderTargets st cfg)"
  shows "primary t \<in> set (references t)
         \<and> (\<forall>a \<in> set (references t). name (st a) = Some (target_name t))"
proof -
  let ?es = "entries_named st (declared cfg) (target_name t)"
  from target_in_collect [OF assms] have eq: "t = target_of st (declared cfg) (target_name t)"
    and ne: "?es \<noteq> []" by simp_all
  have refs: "references t = first_seen ?es" and prim: "primary t = hd ?es"
    using eq by (metis ProviderTarget.select_convs(2) target_of_def,
                 metis ProviderTarget.select_convs(3) target_of_def)
  have "primary t \<in> set (references t)" using ne refs prim by (simp add: set_first_seen)
  moreover have "\<forall>a \<in> set (references t). name (st a) = Some (target_name t)"
    by (auto simp: refs set_first_seen set_entries_named entry_name_def
             split: option.splits if_splits)
  ultimately show ?thesis by blast
qed

lemma collect_targets_apart:
  assumes "collectProviderTargets st cfg = pre @ t # post"
  shows "\<forall>t' \<in> set pre \<union> set post.
           \<forall>a \<in> insert (primary t) (set (references t)).
             a \<noteq> primary t' \<and> a \<notin> set (references t')"
proof (intro ballI)
  fix t' a
  assume t': "t' \<in> set pre \<union> set post" and a: "a \<in> insert (primary t) (set (references t))"
  have d: "distinct (map target_name (pre @ t # post))"
    using collect_names_distinct [of st cfg] assms by simp
  have neq: "target_name t' \<noteq> target_name t" using d t' by (fastforce simp: image_iff)
  have int: "t \<in> set (collectProviderTargets st cfg)" "t' \<in> set (collectProviderTargets st cfg)"
    using assms t' by auto
  from collect_target_references [OF int(1)] a
  have na: "name (st a) = Some (target_name t)" by auto
  from collect_target_references [OF int(2)]
  have "primary t' \<in> set (references t')"
    "\<forall>b \<in> set (references t'). name (st b) = Some (target_name t')" by simp_all
  with na neq show "a \<noteq> primary t' \<and> a \<notin> set (references t')" by auto
qed

lemma apply_overlay_loop:
  assumes "bearerToken req = Str b" "trim b \<noteq> []" "collectProviderTargets (objects w) cfg \<noteq> []"
  shows "apply_overlay server rid cfg req w =
           (let final = fold (apply_dynamic_key server rid (trim b))
                          (collectProviderTargets (objects w) cfg) (w, [])
            in if snd final \<noteq> []
               then (req\<lparr>dynamicApiKeyOverrides := Some (snd final)\<rparr>,
                     (fst final)\<lparr>console := console (fst final) @ [length (snd final)]\<rparr>)
               else (req, fst final))"
proof -
  have "b \<noteq> []" using assms(2) by (auto simp: trim_def)
  with assms show ?thesis by (simp add: apply_overlay_def Let_def)
qed

lemma apply_overlay_static:
  assumes "static_api_key (objects w a) \<noteq> None"
  shows "static_api_key (objects (snd (apply_overlay server rid cfg req w)) a)
           = static_api_key (objects w a)"
proof -
  have "static_api_key (objects (fst (fold (apply_dynamic_key server rid T)
            (collectProviderTargets (objects w) cfg) (w, []))) a) = static_api_key (objects w a)"
    for T
    using overlay_loop_static [of "(w, [])" a server rid T] assms by simp
  then show ?thesis by (simp add: apply_overlay_def Let_def)
qed

lemma overlay_applied_target:
  assumes "bearerToken req = Str b" and "trim b \<noteq> []"
    and "t \<in> set (collectProviderTargets (objects w) cfg)"
    and "currentKey (objects w (primary t)) \<noteq> Some (trim b)"
  shows
    "(\<forall>ref \<in> set (references t).
        api_key (objects (snd (apply_overlay server rid cfg req w)) ref) = Some (trim b)
        \<and> apiKey (objects (snd (apply_overlay server rid cfg req w)) ref) = Some (trim b))
     \<and> dynamic_api_key_stack (objects (snd (apply_overlay server rid cfg req w)) (primary t))
         = Some (stack_of (objects w (primary t)) @ [\<lparr>requestId = rid, newKey = trim b\<rparr>])
     \<and> currentKey (objects (snd (apply_overlay server rid cfg req w)) (primary t)) = Some (trim b)
     \<and> static_api_key (objects (snd (apply_overlay server rid cfg req w)) (primary t))
         = (if static_api_key (objects w (primary t)) = None
            then Some (case api_key (objects w (primary t)) of
                         Some k \<Rightarrow> Some k
                       | None \<Rightarrow> apiKey (objects w (primary t)))
            else static_api_key (objects w (primary t)))
     \<and> (\<exists>ovs. dynamicApiKeyOverrides (fst (apply_overlay server rid cfg req w)) = Some ovs
              \<and> \<lparr>target = t, override_requestId = rid\<rparr> \<in> set ovs)
     \<and> (\<forall>w0 server' rid' cfg' req' a.
           static_api_key (objects w0 a) \<noteq> None \<longrightarrow>
           static_api_key (objects (snd (apply_overlay server' rid' cfg' req' w0)) a)
             = static_api_key (objects w0 a))"
proof -
  let ?T = "trim b"
  let ?ts = "collectProviderTargets (objects w) cfg"
  let ?final = "fold (apply_dynamic_key server rid ?T) ?ts (w, [])"
  let ?p = "objects w (primary t)"
  from assms(3) obtain pre post where split: "?ts = pre @ t # post"
    by (auto dest: split_list)
  have apart: "\<forall>t' \<in> set pre \<union> set post.
                  \<forall>a \<in> insert (primary t) (set (references t)).
                    a \<noteq> primary t' \<and> a \<notin> set (references t')"
    by (rule collect_targets_apart [OF split])
  have differs: "currentKey (objects (fst (w, [] :: override list)) (primary t)) \<noteq> Some ?T"
    using assms(4) by simp
  from overlay_loop_target [OF split apart differs, of server rid]
  have objs: "\<forall>a \<in> insert (primary t) (set (references t)).
            objects (fst ?final) a =
            overwrite_credentials ?T (references t)
              ((objects w)(primary t :=
                 (ensure_stack (snapshot_static ?p))
                   \<lparr>dynamic_api_key_stack :=
                      Some (stack_of ?p @ [\<lparr>requestId = rid, newKey = ?T\<rparr>])\<rparr>)) a"
    and rec: "\<lparr>target = t, override_requestId = rid\<rparr> \<in> set (snd ?final)"
    by simp_all
  have prim: "primary t \<in> set (references t)"
    using collect_target_references [OF assms(3)] by simp
  have ne: "?ts \<noteq> []" using assms(3) by auto
  have nonempty: "snd ?final \<noteq> []" using rec by auto
  have res: "apply_overlay server rid cfg req w =
               (req\<lparr>dynamicApiKeyOverrides := Some (snd ?final)\<rparr>,
                (fst ?final)\<lparr>console := console (fst ?final) @ [length (snd ?final)]\<rparr>)"
    using apply_overlay_loop [OF assms(1,2) ne, of server rid] nonempty by (simp add: Let_def)
  have obj': "objects (snd (apply_overlay server rid cfg req w)) = objects (fst ?final)"
    by (simp add: res)
  have at_primary: "objects (fst ?final) (primary t) =
      ((ensure_stack (snapshot_static ?p))
         \<lparr>dynamic_api_key_stack := Some (stack_of ?p @ [\<lparr>requestId = rid, newKey = ?T\<rparr>])\<rparr>)
        \<lparr>api_key := Some ?T, apiKey := Some ?T\<rparr>"
    using objs prim by (simp add: overwrite_credentials_at)
  show ?thesis
  proof (intro conjI ballI allI impI)
    fix ref assume "ref \<in> set (references t)"
    with objs have "objects (fst ?final) ref =
        overwrite_credentials ?T (references t)
              ((objects w)(primary t :=
                 (ensure_stack (snapshot_static ?p))
                   \<lparr>dynamic_api_key_stack :=
                      Some (stack_of ?p @ [\<lparr>requestId = rid, newKey = ?T\<rparr>])\<rparr>)) ref"
      by simp
    with \<open>ref \<in> set (references t)\<close>
    show "api_key (objects (snd (apply_overlay server rid cfg req w)) ref) = Some ?T"
      and "apiKey (objects (snd (apply_overlay server rid cfg req w)) ref) = Some ?T"
      by (simp_all add: obj' overwrite_credentials_at)
  next
    show "dynamic_api_key_stack (objects (snd (apply_overlay server rid cfg req w)) (primary t))
         = Some (stack_of ?p @ [\<lparr>requestId = rid, newKey = ?T\<rparr>])"
      by (simp add: obj' at_primary)
  next
    show "currentKey (objects (snd (apply_overlay server rid cfg req w)) (primary t)) = Some ?T"
      by (simp add: obj' at_primary currentKey_def)
  next
    show "static_api_key (objects (snd (apply_overlay server rid cfg req w)) (primary t))
         = (if static_api_key ?p = None
            then Some (case api_key ?p of Some k \<Rightarrow> Some k | None \<Rightarrow> apiKey ?p)
            else static_api_key ?p)"
      by (simp add: obj' at_primary static_prepared)
  next
    show "\<exists>ovs. dynamicApiKeyOverrides (fst (apply_overlay server rid cfg req w)) = Some ovs
              \<and> \<lparr>target = t, override_requestId = rid\<rparr> \<in> set ovs"
      using rec by (simp add: res)
  next
    fix w0 :: world and server' rid' cfg' req' a
    assume "static_api_key (objects w0 a) \<noteq> None"
    then show "static_api_key (objects (snd (apply_overlay server' rid' cfg' req' w0)) a)
             = static_api_key (objects w0 a)"
      by (rule apply_overlay_static)
  qed
qed

lemma apply_dynamic_key_visit_static:
  "static_api_key (objects (fst (apply_dynamic_key server rid T tgt s)) (primary tgt))
     = static_api_key (ensure_stack (snapshot_static (objects (fst s) (primary tgt))))"
proof (cases "currentKey (objects (fst s) (primary tgt)) = Some T")
  case True
  from apply_dynamic_key_skips [OF True, of server rid "snd s"] show ?thesis by simp
next
  case False
  from apply_dynamic_key_applies [OF False, of server rid "snd s"] show ?thesis
    by (simp add: overwrite_credentials_at)
qed

lemma overlay_loop_visit_static:
  assumes split: "ts = pre @ t # post"
    and apart: "\<forall>t' \<in> set pre \<union> set post.
                  \<forall>a \<in> insert (primary t) (set (references t)).
                    a \<noteq> primary t' \<and> a \<notin> set (references t')"
  shows "static_api_key (objects (fst (fold (apply_dynamic_key server rid T) ts s)) (primary t))
           = static_api_key (ensure_stack (snapshot_static (objects (fst s) (primary t))))"
proof -
  let ?s1 = "fold (apply_dynamic_key server rid T) pre s"
  let ?s2 = "apply_dynamic_key server rid T t ?s1"
  have before: "objects (fst ?s1) (primary t) = objects (fst s) (primary t)"
    by (rule overlay_loop_frame) (use apart in auto)
  have at: "static_api_key (objects (fst ?s2) (primary t))
              = static_api_key (ensure_stack (snapshot_static (objects (fst s) (primary t))))"
    by (simp add: apply_dynamic_key_visit_static before)
  then have defined: "static_api_key (objects (fst ?s2) (primary t)) \<noteq> None"
    by (simp add: static_prepared)
  have "fold (apply_dynamic_key server rid T) ts s
          = fold (apply_dynamic_key server rid T) post ?s2"
    by (simp add: split)
  with overlay_loop_static [OF defined, of server rid T post] at show ?thesis by simp
qed

lemma apply_overlay_visit_static:
  assumes "bearerToken req = Str b" and "trim b \<noteq> []"
    and "t \<in> set (collectProviderTargets (objects w) cfg)"
  shows "static_api_key (objects (snd (apply_overlay server rid cfg req w)) (primary t))
           = (if static_api_key (objects w (primary t)) = None
              then Some (case api_key (objects w (primary t)) of
                           Some k \<Rightarrow> Some k
                         | None \<Rightarrow> apiKey (objects w (primary t)))
              else static_api_key (objects w (primary t)))"
proof -
  let ?ts = "collectProviderTargets (objects w) cfg"
  let ?final = "fold (apply_dynamic_key server rid (trim b)) ?ts (w, [])"
  from assms(3) obtain pre post where split: "?ts = pre @ t # post"
    by (auto dest: split_list)
  have apart: "\<forall>t' \<in> set pre \<union> set post.
                  \<forall>a \<in> insert (primary t) (set (references t)).
                    a \<noteq> primary t' \<and> a \<notin> set (references t')"
    by (rule collect_targets_apart [OF split])
  have ne: "?ts \<noteq> []" using assms(3) by auto
  have "objects (snd (apply_overlay server rid cfg req w)) = objects (fst ?final)"
    using apply_overlay_loop [OF assms(1,2) ne, of server rid] by (simp add: Let_def)
  with overlay_loop_visit_static [OF split apart, of server rid "trim b" "(w, [])"]
  show ?thesis by (simp add: static_prepared)
qed

text \<open>
  Claim C4, as the code has it.  Let the bearer token of the request be a string that
  is not blank and \<open>T\<close> its trimmed value.  For a target \<open>t\<close> of the configuration whose
  effective credential is not yet \<open>T\<close>, so that the overlay applies \<open>T\<close> to it: after the
  overlay every reference of \<open>t\<close> has \<open>T\<close> in \<^verbatim>\<open>api_key\<close> and in \<^verbatim>\<open>apiKey\<close>; the stack of the
  primary is the stack as it was with the entry of this request and \<open>T\<close> on top, so \<open>T\<close>
  is the effective credential; and the override is recorded in the request.  For
  every target of the configuration, whether \<open>T\<close> is applied to it or the visit is
  skipped because \<open>T\<close> is its effective credential already: the snapshot
  \<^verbatim>\<open>_static_api_key\<close> of the primary is the one that was there, or the credential the
  primary had before the overlay if there was none.  No run of the overlay, with
  whatever token, changes a snapshot that exists.
\<close>

theorem credential_overlay_applied:
  assumes "bearerToken req = Str b" and "trim b \<noteq> []"
  shows
    "(t \<in> set (collectProviderTargets (objects w) cfg)
        \<and> currentKey (objects w (primary t)) \<noteq> Some (trim b) \<longrightarrow>
        (\<forall>ref \<in> set (references t).
           api_key (objects (snd (apply_overlay server rid cfg req w)) ref) = Some (trim b)
           \<and> apiKey (objects (snd (apply_overlay server rid cfg req w)) ref) = Some (trim b))
        \<and> dynamic_api_key_stack (objects (snd (apply_overlay server rid cfg req w)) (primary t))
            = Some (stack_of (objects w (primary t)) @ [\<lparr>requestId = rid, newKey = trim b\<rparr>])
        \<and> currentKey (objects (snd (apply_overlay server rid cfg req w)) (primary t))
            = Some (trim b)
        \<and> (\<exists>ovs. dynamicApiKeyOverrides (fst (apply_overlay server rid cfg req w)) = Some ovs
                 \<and> \<lparr>target = t, override_requestId = rid\<rparr> \<in> set ovs))
     \<and> (\<forall>t' \<in> set (collectProviderTargets (objects w) cfg).
           static_api_key (objects (snd (apply_overlay server rid cfg req w)) (primary t'))
             = (if static_api_key (objects w (primary t')) = None
                then Some (case api_key (objects w (primary t')) of
                             Some k \<Rightarrow> Some k
                           | None \<Rightarrow> apiKey (objects w (primary t')))
                else static_api_key (objects w (primary t'))))
     \<and> (\<forall>w0 server' rid' cfg' req' a.
           static_api_key (objects w0 a) \<noteq> None \<longrightarrow>
           static_api_key (objects (snd (apply_overlay server' rid' cfg' req' w0)) a)
             = static_api_key (objects w0 a))"
proof -
  have applied: "t \<in> set (collectProviderTargets (objects w) cfg)
        \<and> currentKey (objects w (primary t)) \<noteq> Some (trim b) \<longrightarrow>
        (\<forall>ref \<in> set (references t).
           api_key (objects (snd (apply_overlay server rid cfg req w)) ref) = Some (trim b)
           \<and> apiKey (objects (snd (apply_overlay server rid cfg req w)) ref) = Some (trim b))
        \<and> dynamic_api_key_stack (objects (snd (apply_overlay server rid cfg req w)) (primary t))
            = Some (stack_of (objects w (primary t)) @ [\<lparr>requestId = rid, newKey = trim b\<rparr>])
        \<and> currentKey (objects (snd (apply_overlay server rid cfg req w)) (primary t))
            = Some (trim b)
        \<and> (\<exists>ovs. dynamicApiKeyOverrides (fst (apply_overlay server rid cfg req w)) = Some ovs
                 \<and> \<lparr>target = t, override_requestId = rid\<rparr> \<in> set ovs)"
  proof
    assume "t \<in> set (collectProviderTargets (objects w) cfg)
        \<and> currentKey (objects w (primary t)) \<noteq> Some (trim b)"
    then have 3: "t \<in> set (collectProviderTargets (objects w) cfg)"
      and 4: "currentKey (objects w (primary t)) \<noteq> Some (trim b)"
      by simp_all
    from overlay_applied_target [OF assms 3 4, of server rid]
    show "(\<forall>ref \<in> set (references t).
           api_key (objects (snd (apply_overlay server rid cfg req w)) ref) = Some (trim b)
           \<and> apiKey (objects (snd (apply_overlay server rid cfg req w)) ref) = Some (trim b))
        \<and> dynamic_api_key_stack (objects (snd (apply_overlay server rid cfg req w)) (primary t))
            = Some (stack_of (objects w (primary t)) @ [\<lparr>requestId = rid, newKey = trim b\<rparr>])
        \<and> currentKey (objects (snd (apply_overlay server rid cfg req w)) (primary t))
            = Some (trim b)
        \<and> (\<exists>ovs. dynamicApiKeyOverrides (fst (apply_overlay server rid cfg req w)) = Some ovs
                 \<and> \<lparr>target = t, override_requestId = rid\<rparr> \<in> set ovs)"
      by blast
  qed
  have visited: "\<forall>t' \<in> set (collectProviderTargets (objects w) cfg).
           static_api_key (objects (snd (apply_overlay server rid cfg req w)) (primary t'))
             = (if static_api_key (objects w (primary t')) = None
                then Some (case api_key (objects w (primary t')) of
                             Some k \<Rightarrow> Some k
                           | None \<Rightarrow> apiKey (objects w (primary t')))
                else static_api_key (objects w (primary t')))"
  proof
    fix t'
    assume "t' \<in> set (collectProviderTargets (objects w) cfg)"
    with assms
    show "static_api_key (objects (snd (apply_overlay server rid cfg req w)) (primary t'))
             = (if static_api_key (objects w (primary t')) = None
                then Some (case api_key (objects w (primary t')) of
                             Some k \<Rightarrow> Some k
                           | None \<Rightarrow> apiKey (objects w (primary t')))
                else static_api_key (objects w (primary t')))"
      by (rule apply_overlay_visit_static)
  qed
  have kept: "\<forall>w0 server' rid' cfg' req' a.
           static_api_key (objects w0 a) \<noteq> None \<longrightarrow>
           static_api_key (objects (snd (apply_overlay server' rid' cfg' req' w0)) a)
             = static_api_key (objects w0 a)"
    by (intro allI impI) (rule apply_overlay_static)
  show ?thesis by (rule conjI [OF applied conjI [OF visited kept]])
qed

lemma collect_two_lists:
  "collectProviderTargets store_same_name config_two_lists
     = [\<lparr>target_name = ''openai'', references = [0, 1], primary = 0\<rparr>]"
  by (simp add: collect_eq config_two_lists_def store_same_name_def declared_provider_def
      declared_def entry_name_def List.map_filter_def first_seen_def target_of_def
      entries_named_def)

lemma trim_padded_token: "trim padded_token = ''tok''"
  by (simp add: padded_token_def trim_def is_space_def)

theorem credential_overlay_applied_witness:
  "api_key (objects (snd (apply_overlay None 7 config_two_lists (bearer_request padded_token)
       example_world)) 0) = Some ''tok''
   \<and> apiKey (objects (snd (apply_overlay None 7 config_two_lists (bearer_request padded_token)
       example_world)) 0) = Some ''tok''
   \<and> api_key (objects (snd (apply_overlay None 7 config_two_lists (bearer_request padded_token)
       example_world)) 1) = Some ''tok''
   \<and> apiKey (objects (snd (apply_overlay None 7 config_two_lists (bearer_request padded_token)
       example_world)) 1) = Some ''tok''
   \<and> dynamic_api_key_stack (objects (snd (apply_overlay None 7 config_two_lists
       (bearer_request padded_token) example_world)) 0) = Some [\<lparr>requestId = 7, newKey = ''tok''\<rparr>]
   \<and> static_api_key (objects (snd (apply_overlay None 7 config_two_lists
       (bearer_request padded_token) example_world)) 0) = Some (Some ''sk-static'')
   \<and> (\<exists>ovs. dynamicApiKeyOverrides (fst (apply_overlay None 7 config_two_lists
                 (bearer_request padded_token) example_world)) = Some ovs
            \<and> \<lparr>target = \<lparr>target_name = ''openai'', references = [0, 1], primary = 0\<rparr>,
                override_requestId = 7\<rparr> \<in> set ovs)
   \<and> static_api_key (objects (snd (apply_overlay None 8 config_two_lists
        (bearer_request ''other'')
        (snd (apply_overlay None 7 config_two_lists (bearer_request padded_token)
           example_world)))) 0) = Some (Some ''sk-static'')"
proof -
  let ?t = "\<lparr>target_name = ''openai'', references = [0, 1], primary = 0\<rparr>"
  have 1: "bearerToken (bearer_request padded_token) = Str padded_token"
    by (simp add: bearer_request_def)
  have 2: "trim padded_token \<noteq> []" by (simp add: trim_padded_token)
  have 3: "?t \<in> set (collectProviderTargets (objects example_world) config_two_lists)"
    by (simp add: example_world_def collect_two_lists)
  have 4: "currentKey (objects example_world (primary ?t)) \<noteq> Some (trim padded_token)"
    by (simp add: trim_padded_token example_world_def store_same_name_def declared_provider_def
        currentKey_def)
  note applied = credential_overlay_applied [OF 1 2, where t = ?t and w = example_world
      and cfg = config_two_lists and server = None and rid = 7]
  have orig: "stack_of (objects example_world 0) = []"
    "static_api_key (objects example_world 0) = None"
    "api_key (objects example_world 0) = Some ''sk-static''"
    by (simp_all add: example_world_def store_same_name_def declared_provider_def stack_of_def)
  from applied 3 4 have refs: "\<forall>ref \<in> set (references ?t).
        api_key (objects (snd (apply_overlay None 7 config_two_lists (bearer_request padded_token)
          example_world)) ref) = Some (trim padded_token)
        \<and> apiKey (objects (snd (apply_overlay None 7 config_two_lists (bearer_request padded_token)
          example_world)) ref) = Some (trim padded_token)"
    by blast
  from applied 3 4 have stack: "dynamic_api_key_stack (objects (snd (apply_overlay None 7
        config_two_lists (bearer_request padded_token) example_world)) (primary ?t))
        = Some (stack_of (objects example_world (primary ?t))
                @ [\<lparr>requestId = 7, newKey = trim padded_token\<rparr>])"
    by blast
  from applied 3 have "static_api_key (objects (snd (apply_overlay None 7
        config_two_lists (bearer_request padded_token) example_world)) (primary ?t))
        = (if static_api_key (objects example_world (primary ?t)) = None
           then Some (case api_key (objects example_world (primary ?t)) of
                        Some k \<Rightarrow> Some k
                      | None \<Rightarrow> apiKey (objects example_world (primary ?t)))
           else static_api_key (objects example_world (primary ?t)))"
    by blast
  then have static: "static_api_key (objects (snd (apply_overlay None 7
        config_two_lists (bearer_request padded_token) example_world)) 0) = Some (Some ''sk-static'')"
    by (simp add: orig)
  from applied 3 4 have recorded: "\<exists>ovs. dynamicApiKeyOverrides (fst (apply_overlay None 7
        config_two_lists (bearer_request padded_token) example_world)) = Some ovs
            \<and> \<lparr>target = ?t, override_requestId = 7\<rparr> \<in> set ovs"
    by blast
  from static have defined: "static_api_key (objects (snd (apply_overlay None 7
        config_two_lists (bearer_request padded_token) example_world)) 0) \<noteq> None"
    by simp
  from applied defined have "static_api_key (objects (snd (apply_overlay None 8 config_two_lists
        (bearer_request ''other'')
        (snd (apply_overlay None 7 config_two_lists (bearer_request padded_token)
           example_world)))) 0)
      = static_api_key (objects (snd (apply_overlay None 7
        config_two_lists (bearer_request padded_token) example_world)) 0)"
    by blast
  with static have kept: "static_api_key (objects (snd (apply_overlay None 8 config_two_lists
        (bearer_request ''other'')
        (snd (apply_overlay None 7 config_two_lists (bearer_request padded_token)
           example_world)))) 0) = Some (Some ''sk-static'')"
    by simp
  from refs stack static recorded kept show ?thesis by (simp add: trim_padded_token orig)
qed

text \<open>
  Claim C4 as stated fails in "the first time any override was applied": the snapshot
  is taken on the first visit of the target (lines 199 to 202), before the token is
  compared with the effective credential (line 212).  A token equal to the credential
  of a fresh provider applies no override (none is recorded, the stack is empty and
  the other reference keeps its credential), and the snapshot is there.
\<close>

theorem credential_overlay_snapshot_before_override:
  "currentKey (objects example_world 0) = Some ''sk-static''
   \<and> static_api_key (objects example_world 0) = None
   \<and> dynamicApiKeyOverrides (fst (apply_overlay None 7 config_two_lists
        (bearer_request ''sk-static'') example_world)) = None
   \<and> dynamic_api_key_stack (objects (snd (apply_overlay None 7 config_two_lists
        (bearer_request ''sk-static'') example_world)) 0) = Some []
   \<and> api_key (objects (snd (apply_overlay None 7 config_two_lists
        (bearer_request ''sk-static'') example_world)) 1) = Some ''sk-static''
   \<and> static_api_key (objects (snd (apply_overlay None 7 config_two_lists
        (bearer_request ''sk-static'') example_world)) 0) = Some (Some ''sk-static'')"
proof -
  have tr: "trim ''sk-static'' = ''sk-static''" by (simp add: trim_def is_space_def)
  have cur: "currentKey (objects example_world 0) = Some ''sk-static''"
    by (simp add: example_world_def store_same_name_def declared_provider_def currentKey_def)
  have "apply_overlay None 7 config_two_lists (bearer_request ''sk-static'') example_world
          = (bearer_request ''sk-static'',
             example_world\<lparr>objects := (objects example_world)
               (0 := ensure_stack (snapshot_static (objects example_world 0)))\<rparr>)"
    using apply_dynamic_key_skips [of example_world
        "\<lparr>target_name = ''openai'', references = [0, 1], primary = 0\<rparr>" "''sk-static''" None 7 "[]"]
      cur collect_two_lists
    by (simp add: apply_overlay_def Let_def tr bearer_request_def example_world_def)
  then show ?thesis
    using cur
    by (simp add: example_world_def store_same_name_def declared_provider_def
        ensure_stack_def snapshot_static_def stack_of_def bearer_request_def request_for_def)
qed

lemma prepared_fixed:
  "static_api_key q \<noteq> None \<Longrightarrow> dynamic_api_key_stack q \<noteq> None \<Longrightarrow>
   ensure_stack (snapshot_static q) = q"
  by (auto simp: ensure_stack_def snapshot_static_def stack_of_def)

lemma apply_dynamic_key_twice:
  "apply_dynamic_key server rid2 T tgt (apply_dynamic_key server rid1 T tgt s)
     = apply_dynamic_key server rid1 T tgt s"
proof -
  obtain w ovs where s: "s = (w, ovs)" by (cases s)
  let ?p = "objects w (primary tgt)"
  show ?thesis
  proof (cases "currentKey ?p = Some T")
    case True
    let ?w1 = "w\<lparr>objects := (objects w)(primary tgt := ensure_stack (snapshot_static ?p))\<rparr>"
    have first: "apply_dynamic_key server rid1 T tgt (w, ovs) = (?w1, ovs)"
      by (rule apply_dynamic_key_skips [OF True])
    have "currentKey (objects ?w1 (primary tgt)) = Some T"
      using True by (simp add: currentKey_prepared)
    from apply_dynamic_key_skips [OF this, of server rid2 ovs]
    have "apply_dynamic_key server rid2 T tgt (?w1, ovs) = (?w1, ovs)"
      by (simp add: prepared_idem)
    with first s show ?thesis by simp
  next
    case False
    let ?pushed = "(ensure_stack (snapshot_static ?p))
                     \<lparr>dynamic_api_key_stack :=
                        Some (stack_of ?p @ [\<lparr>requestId = rid1, newKey = T\<rparr>])\<rparr>"
    let ?w1 = "w\<lparr>objects := overwrite_credentials T (references tgt)
                               ((objects w)(primary tgt := ?pushed)),
                 provider_updates := provider_updates w @
                   (case server of
                      None \<Rightarrow> []
                    | Some getProvider \<Rightarrow>
                        if getProvider (target_name tgt) then [(target_name tgt, T)] else [])\<rparr>"
    let ?ovs1 = "ovs @ [\<lparr>target = tgt, override_requestId = rid1\<rparr>]"
    have first: "apply_dynamic_key server rid1 T tgt (w, ovs) = (?w1, ?ovs1)"
      by (rule apply_dynamic_key_applies [OF False])
    let ?q = "objects ?w1 (primary tgt)"
    have q: "dynamic_api_key_stack ?q = Some (stack_of ?p @ [\<lparr>requestId = rid1, newKey = T\<rparr>])"
      "static_api_key ?q \<noteq> None"
      by (simp_all add: overwrite_credentials_at static_prepared)
    then have cur: "currentKey ?q = Some T" by (simp add: currentKey_def)
    have fixed: "ensure_stack (snapshot_static ?q) = ?q"
      using q by (intro prepared_fixed) simp_all
    from apply_dynamic_key_skips [OF cur, of server rid2 ?ovs1]
    have "apply_dynamic_key server rid2 T tgt (?w1, ?ovs1) = (?w1, ?ovs1)"
      unfolding fixed by simp
    with first s show ?thesis by simp
  qed
qed


text \<open>
  Claim C5, as the code has it.  A second application of the same token to the same
  target changes nothing: two applications leave the state of one, with one new
  stack entry and one recorded override when the token was not the effective
  credential.  When the token is the effective credential (the \<^verbatim>\<open>newKey\<close> of the top of
  the stack, else \<^verbatim>\<open>api_key\<close>, else \<^verbatim>\<open>apiKey\<close>, else \<^verbatim>\<open>null\<close>), nothing is pushed, no
  credential, no other object and no output changes, and no override is recorded;
  the snapshot and the empty stack of the primary may be created.  When the bearer
  token is falsy, not a string or blank, the overlay changes nothing at all.
\<close>

theorem credential_overlay_guarded:
  "apply_dynamic_key server rid_b T tgt (apply_dynamic_key server rid_a T tgt s)
     = apply_dynamic_key server rid_a T tgt s
   \<and> (currentKey (objects (fst s) (primary tgt)) \<noteq> Some T \<longrightarrow>
        stack_of (objects (fst (apply_dynamic_key server rid_b T tgt
                                  (apply_dynamic_key server rid_a T tgt s))) (primary tgt))
          = stack_of (objects (fst s) (primary tgt)) @ [\<lparr>requestId = rid_a, newKey = T\<rparr>]
        \<and> snd (apply_dynamic_key server rid_b T tgt (apply_dynamic_key server rid_a T tgt s))
          = snd s @ [\<lparr>target = tgt, override_requestId = rid_a\<rparr>])
   \<and> (currentKey (objects (fst s) (primary tgt)) = Some T \<longrightarrow>
        snd (apply_dynamic_key server rid_a T tgt s) = snd s
        \<and> provider_updates (fst (apply_dynamic_key server rid_a T tgt s)) = provider_updates (fst s)
        \<and> console (fst (apply_dynamic_key server rid_a T tgt s)) = console (fst s)
        \<and> (\<forall>a. api_key (objects (fst (apply_dynamic_key server rid_a T tgt s)) a)
                  = api_key (objects (fst s) a)
                \<and> apiKey (objects (fst (apply_dynamic_key server rid_a T tgt s)) a)
                  = apiKey (objects (fst s) a)
                \<and> stack_of (objects (fst (apply_dynamic_key server rid_a T tgt s)) a)
                  = stack_of (objects (fst s) a))
        \<and> (\<forall>a. a \<noteq> primary tgt \<longrightarrow>
                objects (fst (apply_dynamic_key server rid_a T tgt s)) a = objects (fst s) a))
   \<and> currentKey q =
        (if stack_of q = [] then (case api_key q of Some k \<Rightarrow> Some k | None \<Rightarrow> apiKey q)
         else Some (newKey (last (stack_of q))))
   \<and> (\<not> truthy (bearerToken req) \<or> \<not> is_string (bearerToken req)
        \<or> (\<exists>b. bearerToken req = Str b \<and> trim b = []) \<longrightarrow>
        apply_overlay server rid cfg req w = (req, w))"
proof (intro conjI impI allI)
  show "apply_dynamic_key server rid_b T tgt (apply_dynamic_key server rid_a T tgt s)
     = apply_dynamic_key server rid_a T tgt s"
    by (rule apply_dynamic_key_twice)
next
  assume differs: "currentKey (objects (fst s) (primary tgt)) \<noteq> Some T"
  from apply_dynamic_key_applies [OF differs, of server rid_a "snd s"]
  have once: "apply_dynamic_key server rid_a T tgt s =
           ((fst s)\<lparr>objects :=
                overwrite_credentials T (references tgt)
                  ((objects (fst s))(primary tgt :=
                     (ensure_stack (snapshot_static (objects (fst s) (primary tgt))))
                       \<lparr>dynamic_api_key_stack :=
                          Some (stack_of (objects (fst s) (primary tgt))
                                @ [\<lparr>requestId = rid_a, newKey = T\<rparr>])\<rparr>)),
              provider_updates := provider_updates (fst s) @
                (case server of
                   None \<Rightarrow> []
                 | Some getProvider \<Rightarrow>
                     if getProvider (target_name tgt) then [(target_name tgt, T)] else [])\<rparr>,
            snd s @ [\<lparr>target = tgt, override_requestId = rid_a\<rparr>])"
    by simp
  show "stack_of (objects (fst (apply_dynamic_key server rid_b T tgt
                                  (apply_dynamic_key server rid_a T tgt s))) (primary tgt))
          = stack_of (objects (fst s) (primary tgt)) @ [\<lparr>requestId = rid_a, newKey = T\<rparr>]"
    unfolding apply_dynamic_key_twice
    by (simp add: once overwrite_credentials_at stack_of_def)
  show "snd (apply_dynamic_key server rid_b T tgt (apply_dynamic_key server rid_a T tgt s))
          = snd s @ [\<lparr>target = tgt, override_requestId = rid_a\<rparr>]"
    unfolding apply_dynamic_key_twice by (simp add: once)
next
  assume same: "currentKey (objects (fst s) (primary tgt)) = Some T"
  from apply_dynamic_key_skips [OF same, of server rid_a "snd s"]
  have once: "apply_dynamic_key server rid_a T tgt s =
           ((fst s)\<lparr>objects := (objects (fst s))
                 (primary tgt := ensure_stack (snapshot_static (objects (fst s) (primary tgt))))\<rparr>,
            snd s)"
    by simp
  show "snd (apply_dynamic_key server rid_a T tgt s) = snd s" by (simp add: once)
  show "provider_updates (fst (apply_dynamic_key server rid_a T tgt s)) = provider_updates (fst s)"
    by (simp add: once)
  show "console (fst (apply_dynamic_key server rid_a T tgt s)) = console (fst s)"
    by (simp add: once)
  show "api_key (objects (fst (apply_dynamic_key server rid_a T tgt s)) a)
          = api_key (objects (fst s) a)" for a
    by (simp add: once prepared_credentials)
  show "apiKey (objects (fst (apply_dynamic_key server rid_a T tgt s)) a)
          = apiKey (objects (fst s) a)" for a
    by (simp add: once prepared_credentials)
  show "stack_of (objects (fst (apply_dynamic_key server rid_a T tgt s)) a)
          = stack_of (objects (fst s) a)" for a
    by (simp add: once stack_of_prepared)
  show "objects (fst (apply_dynamic_key server rid_a T tgt s)) a = objects (fst s) a"
    if "a \<noteq> primary tgt" for a
    using that by (simp add: once)
next
  show "currentKey q =
        (if stack_of q = [] then (case api_key q of Some k \<Rightarrow> Some k | None \<Rightarrow> apiKey q)
         else Some (newKey (last (stack_of q))))"
    by (simp add: currentKey_def stack_of_def split: option.splits)
next
  assume blank: "\<not> truthy (bearerToken req) \<or> \<not> is_string (bearerToken req)
        \<or> (\<exists>b. bearerToken req = Str b \<and> trim b = [])"
  show "apply_overlay server rid cfg req w = (req, w)"
  proof (cases "bearerToken req")
    case (Str b)
    with blank have "b = [] \<or> trim b = []" by auto
    with Str show ?thesis by (auto simp: apply_overlay_def Let_def)
  qed (simp_all add: apply_overlay_def Let_def)
qed

theorem credential_overlay_guarded_witness:
  "stack_of (objects (fst (apply_dynamic_key None 8 ''tok''
       \<lparr>target_name = ''openai'', references = [0], primary = 0\<rparr>
       (apply_dynamic_key None 7 ''tok''
          \<lparr>target_name = ''openai'', references = [0], primary = 0\<rparr> (example_world, [])))) 0)
     = [\<lparr>requestId = 7, newKey = ''tok''\<rparr>]
   \<and> snd (apply_dynamic_key None 8 ''tok''
       \<lparr>target_name = ''openai'', references = [0], primary = 0\<rparr>
       (apply_dynamic_key None 7 ''tok''
          \<lparr>target_name = ''openai'', references = [0], primary = 0\<rparr> (example_world, [])))
     = [\<lparr>target = \<lparr>target_name = ''openai'', references = [0], primary = 0\<rparr>,
         override_requestId = 7\<rparr>]
   \<and> snd (apply_dynamic_key None 7 ''sk-static''
       \<lparr>target_name = ''openai'', references = [0], primary = 0\<rparr> (example_world, [])) = []
   \<and> provider_updates (fst (apply_dynamic_key None 7 ''sk-static''
       \<lparr>target_name = ''openai'', references = [0], primary = 0\<rparr> (example_world, []))) = []
   \<and> api_key (objects (fst (apply_dynamic_key None 7 ''sk-static''
       \<lparr>target_name = ''openai'', references = [0], primary = 0\<rparr> (example_world, []))) 0)
     = Some ''sk-static''
   \<and> objects (fst (apply_dynamic_key None 7 ''sk-static''
       \<lparr>target_name = ''openai'', references = [0], primary = 0\<rparr> (example_world, []))) 1
     = objects example_world 1
   \<and> apply_overlay None 7 example_config (bearer_request ''   '') example_world
     = (bearer_request ''   '', example_world)
   \<and> apply_overlay None 7 example_config (bearer_request blank_token) example_world
     = (bearer_request blank_token, example_world)"
proof -
  let ?t = "\<lparr>target_name = ''openai'', references = [0], primary = 0\<rparr>"
  note guarded = credential_overlay_guarded [where s = "(example_world, [])" and tgt = ?t
      and T = "''tok''" and server = None and rid_a = 7 and rid_b = 8
      and req = "bearer_request ''   ''" and w = example_world and cfg = example_config and rid = 7]
  note same_token = credential_overlay_guarded [where s = "(example_world, [])" and tgt = ?t
      and T = "''sk-static''" and server = None and rid_a = 7]
  have differs: "currentKey (objects (fst (example_world, [] :: override list)) (primary ?t))
                   \<noteq> Some ''tok''"
    by (simp add: example_world_def store_same_name_def declared_provider_def currentKey_def)
  have same: "currentKey (objects (fst (example_world, [] :: override list)) (primary ?t))
                   = Some ''sk-static''"
    by (simp add: example_world_def store_same_name_def declared_provider_def currentKey_def)
  have blank: "\<not> truthy (bearerToken (bearer_request ''   ''))
        \<or> \<not> is_string (bearerToken (bearer_request ''   ''))
        \<or> (\<exists>b. bearerToken (bearer_request ''   '') = Str b \<and> trim b = [])"
    by (simp add: bearer_request_def trim_def is_space_def)
  have orig: "stack_of (objects example_world 0) = []"
    "api_key (objects example_world 0) = Some ''sk-static''"
    "provider_updates example_world = []"
    by (simp_all add: example_world_def store_same_name_def declared_provider_def stack_of_def)
  have other: "(1::nat) \<noteq> primary ?t" by simp
  from guarded differs
  have a: "stack_of (objects (fst (apply_dynamic_key None 8 ''tok'' ?t
             (apply_dynamic_key None 7 ''tok'' ?t (example_world, [])))) (primary ?t))
           = stack_of (objects (fst (example_world, [] :: override list)) (primary ?t))
             @ [\<lparr>requestId = 7, newKey = ''tok''\<rparr>]"
    and b: "snd (apply_dynamic_key None 8 ''tok'' ?t
             (apply_dynamic_key None 7 ''tok'' ?t (example_world, [])))
           = snd (example_world, [] :: override list) @ [\<lparr>target = ?t, override_requestId = 7\<rparr>]"
    by blast+
  from guarded blank
  have c: "apply_overlay None 7 example_config (bearer_request ''   '') example_world
     = (bearer_request ''   '', example_world)"
    by blast
  have blank_nbsp: "\<not> truthy (bearerToken (bearer_request blank_token))
        \<or> \<not> is_string (bearerToken (bearer_request blank_token))
        \<or> (\<exists>b. bearerToken (bearer_request blank_token) = Str b \<and> trim b = [])"
    by (simp add: bearer_request_def blank_token_def trim_def is_space_def)
  from credential_overlay_guarded [where req = "bearer_request blank_token" and w = example_world
      and cfg = example_config and rid = 7 and server = None] blank_nbsp
  have c': "apply_overlay None 7 example_config (bearer_request blank_token) example_world
     = (bearer_request blank_token, example_world)"
    by blast
  from same_token same
  have d: "snd (apply_dynamic_key None 7 ''sk-static'' ?t (example_world, []))
             = snd (example_world, [] :: override list)"
    and e: "provider_updates (fst (apply_dynamic_key None 7 ''sk-static'' ?t (example_world, [])))
             = provider_updates (fst (example_world, [] :: override list))"
    and f: "api_key (objects (fst (apply_dynamic_key None 7 ''sk-static'' ?t (example_world, []))) 0)
             = api_key (objects (fst (example_world, [] :: override list)) 0)"
    by blast+
  from same_token same other
  have g: "objects (fst (apply_dynamic_key None 7 ''sk-static'' ?t (example_world, []))) 1
             = objects (fst (example_world, [] :: override list)) 1"
    by blast
  from a b c c' d e f g show ?thesis by (simp add: orig)
qed

text \<open>
  Claim C5 as stated fails in "nothing mutated": the snapshot and the stack are set up
  (lines 199 to 206) before the token is compared with the effective credential (line
  212).  A token equal to the credential of a fresh provider leaves the request as it
  was, and the provider with a snapshot and an empty stack.
\<close>

theorem credential_overlay_same_token_mutates:
  "currentKey (objects example_world 0) = Some ''sk-static''
   \<and> fst (apply_overlay None 7 example_config (bearer_request ''sk-static'') example_world)
       = bearer_request ''sk-static''
   \<and> static_api_key (objects example_world 0) = None
   \<and> dynamic_api_key_stack (objects example_world 0) = None
   \<and> static_api_key (objects (snd (apply_overlay None 7 example_config
        (bearer_request ''sk-static'') example_world)) 0) = Some (Some ''sk-static'')
   \<and> dynamic_api_key_stack (objects (snd (apply_overlay None 7 example_config
        (bearer_request ''sk-static'') example_world)) 0) = Some []"
proof -
  have ts: "collectProviderTargets (objects example_world) example_config
              = [\<lparr>target_name = ''openai'', references = [0], primary = 0\<rparr>]"
    by (simp add: collect_eq example_config_def example_world_def store_same_name_def
        declared_provider_def declared_def entry_name_def List.map_filter_def first_seen_def
        target_of_def entries_named_def)
  have tr: "trim ''sk-static'' = ''sk-static''" by (simp add: trim_def is_space_def)
  have cur: "currentKey (objects example_world 0) = Some ''sk-static''"
    by (simp add: example_world_def store_same_name_def declared_provider_def currentKey_def)
  have "apply_overlay None 7 example_config (bearer_request ''sk-static'') example_world
          = (bearer_request ''sk-static'',
             example_world\<lparr>objects := (objects example_world)
               (0 := ensure_stack (snapshot_static (objects example_world 0)))\<rparr>)"
    using apply_dynamic_key_skips [of example_world
        "\<lparr>target_name = ''openai'', references = [0], primary = 0\<rparr>" "''sk-static''" None 7 "[]"]
      cur
    by (simp add: apply_overlay_def Let_def ts tr bearer_request_def)
  then show ?thesis
    using cur
    by (simp add: example_world_def store_same_name_def declared_provider_def
        ensure_stack_def snapshot_static_def stack_of_def)
qed

section \<open>What the steps of the router keep\<close>

lemma apply_overlay_body: "body (fst (apply_overlay server rid cfg req w)) = body req"
  by (simp add: apply_overlay_def Let_def)

lemma parse_session_body: "body (parse_session req) = body req"
  by (simp add: parse_session_def split: option.splits list.splits)

lemma rewrite_system_prompt_model:
  "rewrite_system_prompt rt co cfg req = Inr (req', sys) \<Longrightarrow> model (body req') = model (body req)"
  by (auto simp: rewrite_system_prompt_def Let_def bindE_def
           split: option.splits if_splits sum.splits jsval.splits)

lemma consult_custom_router_body: "body (snd (consult_custom_router co cfg req n)) = body req"
  by (simp add: consult_custom_router_def Let_def split: option.splits sum.splits)

lemma apply_overlay_session: "sessionId (fst (apply_overlay server rid cfg req w)) = sessionId req"
  by (simp add: apply_overlay_def Let_def)

lemma parse_session_depends:
  "body r1 = body r2 \<Longrightarrow> sessionId r1 = sessionId r2 \<Longrightarrow>
   sessionId (parse_session r1) = sessionId (parse_session r2)"
  by (simp add: parse_session_def split: option.splits list.splits)

lemma rewrite_system_prompt_session:
  "rewrite_system_prompt rt co cfg req = Inr (req', sys) \<Longrightarrow> sessionId req' = sessionId req"
  by (auto simp: rewrite_system_prompt_def Let_def bindE_def
           split: option.splits if_splits sum.splits jsval.splits)

lemma consult_custom_router_session:
  "sessionId (snd (consult_custom_router co cfg req n)) = sessionId req"
  by (simp add: consult_custom_router_def Let_def split: option.splits sum.splits)

lemma subagent_directive_session:
  "subagent_directive rt req = Inr (Some (m, req')) \<Longrightarrow> sessionId req' = sessionId req"
  by (auto simp: subagent_directive_def Let_def bindE_def
           split: if_splits sum.splits jsval.splits option.splits)

lemma getUseModel_session:
  assumes "getUseModel rt st req tokens cfg lastUsage = Inr (m, req')"
  shows "sessionId req' = sessionId req"
proof (cases "subagent_directive rt req")
  case (Inl e)
  with assms show ?thesis
    by (auto simp: getUseModel_def Let_def bindE_def split: option.splits if_splits sum.splits)
next
  case (Inr d)
  show ?thesis
  proof (cases d)
    case None
    with Inr assms show ?thesis
      by (auto simp: getUseModel_def Let_def bindE_def split: option.splits if_splits sum.splits)
  next
    case (Some p)
    obtain m2 req2 where p: "p = (m2, req2)" by (cases p)
    have "sessionId req2 = sessionId req"
      using Inr Some p by (simp add: subagent_directive_session)
    with Inr Some p assms show ?thesis
      by (auto simp: getUseModel_def Let_def bindE_def split: option.splits if_splits sum.splits)
  qed
qed

lemma route_decision_session:
  "route_decision rt co st cfg lu req sys = Inr req' \<Longrightarrow> sessionId req' = sessionId req"
  "route_decision rt co st cfg lu req sys = Inl (e, req') \<Longrightarrow> sessionId req' = sessionId req"
  by (auto simp: route_decision_def Let_def consult_custom_router_session
           dest: getUseModel_session split: sum.splits if_splits prod.splits)

lemma router_session:
  assumes "snd (router rt co server rid cfg req w) = Inr req'"
  shows "sessionId req' = sessionId (parse_session req)"
proof -
  let ?req2 = "parse_session (fst (apply_overlay server rid cfg req w))"
  have s2: "sessionId ?req2 = sessionId (parse_session req)"
    by (rule parse_session_depends) (simp_all add: apply_overlay_body apply_overlay_session)
  from assms obtain req3 sys where rw: "rewrite_system_prompt rt co cfg ?req2 = Inr (req3, sys)"
    by (auto simp: router_def Let_def split: sum.splits)
  then have s3: "sessionId req3 = sessionId ?req2" by (rule rewrite_system_prompt_session)
  from assms rw have "sessionId req' = sessionId req3"
    by (auto simp: router_def Let_def route_decision_session split: sum.splits option.splits)
  with s2 s3 show ?thesis by simp
qed

lemma router_rejects_when_prompt_step_throws:
  "rewrite_system_prompt rt co cfg (parse_session (fst (apply_overlay server rid cfg req w))) = Inl e
   \<Longrightarrow> snd (router rt co server rid cfg req w) = Inl e"
  by (simp add: router_def Let_def)

lemma router_returns_when_prompt_step_succeeds:
  assumes "rewrite_system_prompt rt co cfg
             (parse_session (fst (apply_overlay server rid cfg req w))) = Inr x"
    and "Router cfg = Some r"
  shows "\<exists>req'. snd (router rt co server rid cfg req w) = Inr req'"
  using assms by (auto simp: router_def Let_def split: sum.splits prod.splits)

section \<open>The session identifier\<close>

lemma split_once:
  assumes "sep \<noteq> []" "first_at sep a" "\<not> str_includes r sep"
  shows "split (a @ sep @ r) sep = [a, r]"
  using assms by (simp add: split_at split_absent first_at_def)

lemma split_twice:
  assumes "sep \<noteq> []" "first_at sep a" "first_at sep b"
  shows "\<exists>rest. split (a @ sep @ b @ sep @ r) sep = a # b # rest"
  using assms by (simp add: split_at first_at_def)

text \<open>
  Claim C8, as the code has it.  The router splits the user identifier at every
  occurrence of the delimiter and takes the second part.  When the delimiter occurs
  once, the session id is everything after it; when it occurs again, the session id
  is the text between the first occurrence and the next one.  When the delimiter is
  absent (or the metadata has no user identifier) the request is left as it is, and
  the lookup for a request without a session id finds nothing.  The request that the
  router returns carries the session id of this step.
\<close>

theorem parse_session_second_part:
  "(\<forall>a r. metadata_user_id (body req) = Some (a @ ''_session_'' @ r)
          \<and> first_at ''_session_'' a \<and> \<not> str_includes r ''_session_'' \<longrightarrow>
          parse_session req = req\<lparr>sessionId := Some r\<rparr>)
   \<and> (\<forall>a b r. metadata_user_id (body req) = Some (a @ ''_session_'' @ b @ ''_session_'' @ r)
          \<and> first_at ''_session_'' a \<and> first_at ''_session_'' b \<longrightarrow>
          parse_session req = req\<lparr>sessionId := Some b\<rparr>)
   \<and> ((\<forall>u. metadata_user_id (body req) = Some u \<longrightarrow> \<not> str_includes u ''_session_'') \<longrightarrow>
          parse_session req = req
          \<and> (sessionId req = None \<longrightarrow> cache_get cache (sessionId (parse_session req)) = None))
   \<and> (\<forall>rt co server rid cfg (w :: world) req'.
          snd (router rt co server rid cfg req w) = Inr req' \<longrightarrow>
          sessionId req' = sessionId (parse_session req))"
proof (intro conjI allI impI)
  fix a r
  assume h: "metadata_user_id (body req) = Some (a @ ''_session_'' @ r)
          \<and> first_at ''_session_'' a \<and> \<not> str_includes r ''_session_''"
  have "split (a @ ''_session_'' @ r) ''_session_'' = [a, r]"
    by (rule split_once) (use h in simp_all)
  moreover have "a @ ''_session_'' @ r \<noteq> []" by simp
  ultimately show "parse_session req = req\<lparr>sessionId := Some r\<rparr>"
    using h unfolding parse_session_def by (simp only: option.case list.case if_False)
next
  fix a b r
  assume h: "metadata_user_id (body req) = Some (a @ ''_session_'' @ b @ ''_session_'' @ r)
          \<and> first_at ''_session_'' a \<and> first_at ''_session_'' b"
  have "\<exists>rest. split (a @ ''_session_'' @ b @ ''_session_'' @ r) ''_session_'' = a # b # rest"
    by (rule split_twice) (use h in simp_all)
  then obtain rest where
    "split (a @ ''_session_'' @ b @ ''_session_'' @ r) ''_session_'' = a # b # rest" ..
  moreover have "a @ ''_session_'' @ b @ ''_session_'' @ r \<noteq> []" by simp
  ultimately show "parse_session req = req\<lparr>sessionId := Some b\<rparr>"
    using h unfolding parse_session_def by (simp only: option.case list.case if_False)
next
  assume h: "\<forall>u. metadata_user_id (body req) = Some u \<longrightarrow> \<not> str_includes u ''_session_''"
  show same: "parse_session req = req"
  proof (cases "metadata_user_id (body req)")
    case None
    then show ?thesis by (simp add: parse_session_def)
  next
    case (Some u)
    with h have "\<not> str_includes u ''_session_''" by simp
    then have "split u ''_session_'' = [u]" by (simp add: split_absent)
    with Some show ?thesis by (simp add: parse_session_def)
  qed
  assume "sessionId req = None"
  with same show "cache_get cache (sessionId (parse_session req)) = None"
    by (simp add: cache_get_def)
next
  fix rt co server rid cfg and w :: world and req'
  assume "snd (router rt co server rid cfg req w) = Inr req'"
  then show "sessionId req' = sessionId (parse_session req)"
    by (rule router_session)
qed

theorem parse_session_second_part_witness:
  "parse_session (request_of_user ''user_1_session_abc'')
     = (request_of_user ''user_1_session_abc'')\<lparr>sessionId := Some ''abc''\<rparr>
   \<and> parse_session (request_of_user ''user_1_session_abc_session_def'')
     = (request_of_user ''user_1_session_abc_session_def'')\<lparr>sessionId := Some ''abc''\<rparr>
   \<and> parse_session (request_of_user ''user_1'') = request_of_user ''user_1''
   \<and> cache_get (\<lambda>sid. Some \<lparr>input_tokens = 70000\<rparr>)
        (sessionId (parse_session (request_of_user ''user_1''))) = None
   \<and> (\<exists>req'. snd (router char_tokenizer no_collaborators None 1 example_config
                     (request_of_user ''user_1_session_abc'') example_world) = Inr req'
             \<and> sessionId req' = Some ''abc'')"
proof -
  have h1: "metadata_user_id (body (request_of_user ''user_1_session_abc''))
              = Some (''user_1'' @ ''_session_'' @ ''abc'')
            \<and> first_at ''_session_'' ''user_1'' \<and> \<not> str_includes ''abc'' ''_session_''"
    by (simp add: request_of_user_def request_for_def first_at_def)
  have h2: "metadata_user_id (body (request_of_user ''user_1_session_abc_session_def''))
              = Some (''user_1'' @ ''_session_'' @ ''abc'' @ ''_session_'' @ ''def'')
            \<and> first_at ''_session_'' ''user_1'' \<and> first_at ''_session_'' ''abc''"
    by (simp add: request_of_user_def request_for_def first_at_def)
  have h3: "\<forall>u. metadata_user_id (body (request_of_user ''user_1'')) = Some u
              \<longrightarrow> \<not> str_includes u ''_session_''"
    by (simp add: request_of_user_def request_for_def)
  have h4: "sessionId (request_of_user ''user_1'') = None"
    by (simp add: request_of_user_def request_for_def)
  from parse_session_second_part [of "request_of_user ''user_1_session_abc''"] h1
  have a: "parse_session (request_of_user ''user_1_session_abc'')
     = (request_of_user ''user_1_session_abc'')\<lparr>sessionId := Some ''abc''\<rparr>"
    by blast
  from parse_session_second_part [of "request_of_user ''user_1_session_abc_session_def''"] h2
  have b: "parse_session (request_of_user ''user_1_session_abc_session_def'')
     = (request_of_user ''user_1_session_abc_session_def'')\<lparr>sessionId := Some ''abc''\<rparr>"
    by blast
  from parse_session_second_part [of "request_of_user ''user_1''"
      "\<lambda>sid. Some \<lparr>input_tokens = 70000\<rparr>"] h3 h4
  have c: "parse_session (request_of_user ''user_1'') = request_of_user ''user_1''"
    and d: "cache_get (\<lambda>sid. Some \<lparr>input_tokens = 70000\<rparr>)
        (sessionId (parse_session (request_of_user ''user_1''))) = None"
    by blast+
  have "rewrite_system_prompt char_tokenizer no_collaborators example_config
          (parse_session (fst (apply_overlay None 1 example_config
             (request_of_user ''user_1_session_abc'') example_world)))
        = Inr (parse_session (fst (apply_overlay None 1 example_config
             (request_of_user ''user_1_session_abc'') example_world)), Arr [])"
    by (simp add: rewrite_system_prompt_def example_config_def parse_session_body
        apply_overlay_body request_of_user_def request_for_def)
  moreover have "Router example_config = Some example_router" by (simp add: example_config_def)
  ultimately obtain req' where run: "snd (router char_tokenizer no_collaborators None 1
      example_config (request_of_user ''user_1_session_abc'') example_world) = Inr req'"
    using router_returns_when_prompt_step_succeeds by blast
  from parse_session_second_part [of "request_of_user ''user_1_session_abc''"] run
  have "sessionId req' = sessionId (parse_session (request_of_user ''user_1_session_abc''))"
    by blast
  with a have "sessionId req' = Some ''abc''" by simp
  with run have e: "\<exists>req'. snd (router char_tokenizer no_collaborators None 1 example_config
                     (request_of_user ''user_1_session_abc'') example_world) = Inr req'
             \<and> sessionId req' = Some ''abc''"
    by blast
  from a b c d e show ?thesis by blast
qed

text \<open>
  Claim C8 as stated fails where the delimiter occurs twice: the session id is not
  everything after the first occurrence (\<^verbatim>\<open>abc_session_def\<close>) but the part up to the
  second occurrence.
\<close>

theorem parse_session_two_delimiters:
  "''user_1_session_abc_session_def'' = ''user_1'' @ ''_session_'' @ ''abc_session_def''
   \<and> sessionId (parse_session (request_of_user ''user_1_session_abc_session_def'')) = Some ''abc''"
  by (simp add: parse_session_def request_of_user_def request_for_def split.simps)

section \<open>The compound selector and the handler of the router\<close>

lemma find_provider_found:
  "find_provider st ps p = Inr (Some a) \<Longrightarrow>
     Some a \<in> set ps \<and> (\<exists>n. name (st a) = Some n \<and> toLowerCase n = p)"
  by (induction ps) (auto split: option.splits if_splits)

lemma split_two_parts:
  assumes "str_includes s sep" "sep \<noteq> []"
  shows "\<exists>a b rest. split s sep = a # b # rest"
proof -
  from assms obtain a r where ar: "split_first sep s = Some (a, r)"
    using split_first_None_iff [of sep s] by (cases "split_first sep s") auto
  have "\<exists>b rest. split r sep = b # rest"
    using assms(2) by (subst split.simps) (auto split: option.splits)
  then show ?thesis using ar assms(2) by (subst split.simps) auto
qed

lemma compound_selector_found:
  assumes "compound_selector st cfg requested = Inr m"
  shows "m = requested \<or>
         (\<exists>ps a n ms fm. Providers cfg = Some ps \<and> Some a \<in> set ps \<and> name (st a) = Some n
            \<and> models (st a) = Some ms \<and> fm \<in> set ms \<and> m = n @ '','' @ fm)"
proof (cases "split requested '',''")
  case Nil
  with assms show ?thesis by (simp add: compound_selector_def)
next
  case (Cons provider t)
  show ?thesis
  proof (cases t)
    case Nil
    with Cons assms show ?thesis by (simp add: compound_selector_def)
  next
    case (Cons mdl rest)
    show ?thesis
    proof (cases "Providers cfg")
      case None
      with \<open>split requested '','' = provider # t\<close> Cons assms show ?thesis
        by (simp add: compound_selector_def)
    next
      case (Some ps)
      show ?thesis
      proof (cases "find_provider st ps provider")
        case (Inl e)
        with \<open>split requested '','' = provider # t\<close> Cons Some assms show ?thesis
          by (simp add: compound_selector_def bindE_def)
      next
        case (Inr found)
        show ?thesis
        proof (cases found)
          case None
          with Inr \<open>split requested '','' = provider # t\<close> Cons Some assms show ?thesis
            by (simp add: compound_selector_def bindE_def)
        next
          case (Some a)
          from find_provider_found [of st ps provider a] Inr Some
          obtain n where a: "Some a \<in> set ps" "name (st a) = Some n" by auto
          from assms \<open>split requested '','' = provider # t\<close> Cons \<open>Providers cfg = Some ps\<close> Inr Some a
          show ?thesis
            by (auto simp: compound_selector_def bindE_def find_Some_iff
                     split: option.splits if_splits)
        qed
      qed
    qed
  qed
qed


lemma compound_selector_ignores_providers:
  "compound_selector st (cfg\<lparr>providers := qs\<rparr>) requested = compound_selector st cfg requested"
  by (simp add: compound_selector_def cong: list.case_cong option.case_cong)

lemma getUseModel_ignores_providers:
  "getUseModel rt st req tokens (cfg\<lparr>providers := qs\<rparr>) lastUsage
     = getUseModel rt st req tokens cfg lastUsage"
  by (simp add: getUseModel_def compound_selector_ignores_providers
        cong: if_cong option.case_cong)

lemma getUseModel_no_Providers:
  assumes "model (body req) = Some requested" "str_includes requested '',''" "Providers cfg = None"
  shows "getUseModel rt st req tokens cfg lastUsage = Inl TypeError"
proof -
  from split_two_parts [OF assms(2)] obtain a b rest where "split requested '','' = a # b # rest"
    by auto
  with assms show ?thesis by (simp add: getUseModel_def compound_selector_def bindE_def)
qed

lemma route_decision_no_Providers:
  assumes "model (body req) = Some requested" "str_includes requested '',''" "Providers cfg = None"
    and "\<forall>q n. \<not> configured (fst (consult_custom_router co cfg q n))"
  shows "\<exists>e req'. route_decision rt co st cfg lastUsage req sys = Inl (e, req')"
proof (cases "calculateTokenCount rt (messages (body req)) sys (tools (body req))")
  case (Inl e)
  then show ?thesis by (simp add: route_decision_def)
next
  case (Inr tokens)
  let ?req1 = "snd (consult_custom_router co cfg req tokens)"
  have "model (body ?req1) = Some requested"
    using assms(1) by (simp add: consult_custom_router_body)
  from getUseModel_no_Providers [OF this assms(2,3)]
  have "getUseModel rt st ?req1 tokens cfg lastUsage = Inl TypeError" .
  with Inr assms(4) show ?thesis by (simp add: route_decision_def Let_def)
qed

text \<open>
  Claim C10.  For a requested model with a comma, \<^verbatim>\<open>getUseModel\<close> reads the capitalized
  list \<^verbatim>\<open>Providers\<close> only: its result is the same whatever the lowercase list holds, it
  leaves the request as it is, and the model it returns is the requested string or
  the canonical form of a provider that stands in \<^verbatim>\<open>Providers\<close>.  Without a list
  \<^verbatim>\<open>Providers\<close> the lookup throws a \<^verbatim>\<open>TypeError\<close>; in the router, when the prompt step has
  not thrown and no custom router yields a model, the handler of the \<^verbatim>\<open>try\<close> logs the
  error and writes the configured default model to the request.
\<close>

theorem compound_selector_reads_Providers_only:
  assumes "model (body req) = Some requested" and "str_includes requested '',''"
  shows
    "getUseModel rt st req tokens (cfg\<lparr>providers := qs\<rparr>) lastUsage
       = getUseModel rt st req tokens cfg lastUsage
     \<and> (\<forall>m req'. getUseModel rt st req tokens cfg lastUsage = Inr (m, req') \<longrightarrow>
           req' = req \<and>
           (m = Some requested \<or>
            (\<exists>ps a n ms fm. Providers cfg = Some ps \<and> Some a \<in> set ps \<and> name (st a) = Some n
               \<and> models (st a) = Some ms \<and> fm \<in> set ms \<and> m = Some (n @ '','' @ fm))))
     \<and> (Providers cfg = None \<longrightarrow> getUseModel rt st req tokens cfg lastUsage = Inl TypeError)
     \<and> (\<forall>r x. Providers cfg = None \<and> Router cfg = Some r
           \<and> (\<forall>q n. \<not> configured (fst (consult_custom_router co cfg q n)))
           \<and> rewrite_system_prompt rt co cfg
                (parse_session (fst (apply_overlay server rid cfg req w))) = Inr x \<longrightarrow>
           (\<exists>e req'. snd (router rt co server rid cfg req w) =
                        Inr (req'\<lparr>log := log req' @ [RouterError e],
                                  body := (body req')\<lparr>model := default_model r\<rparr>\<rparr>)))"
proof (intro conjI allI impI)
  show "getUseModel rt st req tokens (cfg\<lparr>providers := qs\<rparr>) lastUsage
       = getUseModel rt st req tokens cfg lastUsage"
    by (rule getUseModel_ignores_providers)
next
  fix m req'
  assume res: "getUseModel rt st req tokens cfg lastUsage = Inr (m, req')"
  with assms obtain c where c: "compound_selector st cfg requested = Inr c"
    and m: "m = Some c" and "req' = req"
    by (auto simp: getUseModel_def bindE_def split: sum.splits)
  then show "req' = req" by simp
  from compound_selector_found [OF c] m
  show "m = Some requested \<or>
            (\<exists>ps a n ms fm. Providers cfg = Some ps \<and> Some a \<in> set ps \<and> name (st a) = Some n
               \<and> models (st a) = Some ms \<and> fm \<in> set ms \<and> m = Some (n @ '','' @ fm))"
    by blast
next
  assume "Providers cfg = None"
  with assms show "getUseModel rt st req tokens cfg lastUsage = Inl TypeError"
    by (rule getUseModel_no_Providers)
next
  fix r x
  assume h: "Providers cfg = None \<and> Router cfg = Some r
           \<and> (\<forall>q n. \<not> configured (fst (consult_custom_router co cfg q n)))
           \<and> rewrite_system_prompt rt co cfg
                (parse_session (fst (apply_overlay server rid cfg req w))) = Inr x"
  obtain req3 sys where x: "x = (req3, sys)" by (cases x)
  let ?req2 = "parse_session (fst (apply_overlay server rid cfg req w))"
  have "model (body ?req2) = Some requested"
    using assms(1) by (simp add: parse_session_body apply_overlay_body)
  with h x have m3: "model (body req3) = Some requested"
    using rewrite_system_prompt_model [of rt co cfg ?req2 req3 sys] by simp
  from h have np: "Providers cfg = None"
    and nc: "\<forall>q n. \<not> configured (fst (consult_custom_router co cfg q n))" by simp_all
  from route_decision_no_Providers [OF m3 assms(2) np nc]
  obtain e req' where
    "route_decision rt co (objects (snd (apply_overlay server rid cfg req w))) cfg
       (cache_get (sessionUsageCache co) (sessionId ?req2)) req3 sys = Inl (e, req')"
    by blast
  with h x show "\<exists>e req'. snd (router rt co server rid cfg req w) =
                        Inr (req'\<lparr>log := log req' @ [RouterError e],
                                  body := (body req')\<lparr>model := default_model r\<rparr>\<rparr>)"
    by (auto simp: router_def Let_def)
qed

theorem compound_selector_reads_Providers_only_witness:
  "getUseModel char_tokenizer store_same_name (request_for ''openai,gpt-4'') 0 lowercase_only_config None
     = Inl TypeError
   \<and> (\<exists>e req'. snd (router char_tokenizer no_collaborators None 1 lowercase_only_config
                        (request_for ''openai,gpt-4'') example_world) =
                 Inr (req'\<lparr>log := log req' @ [RouterError e],
                           body := (body req')\<lparr>model := Some ''default-model''\<rparr>\<rparr>))
   \<and> getUseModel char_tokenizer store_mixed_case (request_for ''openai,gpt-4'') 0 example_config None
     = Inr (Some ''OpenAI,GPT-4'', request_for ''openai,gpt-4'')
   \<and> (\<exists>ps a n ms fm. Providers example_config = Some ps \<and> Some a \<in> set ps
         \<and> name (store_mixed_case a) = Some n \<and> models (store_mixed_case a) = Some ms
         \<and> fm \<in> set ms \<and> ''OpenAI,GPT-4'' = n @ '','' @ fm)"
proof -
  have 1: "model (body (request_for ''openai,gpt-4'')) = Some ''openai,gpt-4''"
    by (simp add: request_for_def)
  have 2: "str_includes ''openai,gpt-4'' '',''" by simp
  note rule = compound_selector_reads_Providers_only [OF 1 2,
      where rt = char_tokenizer and st = store_same_name and cfg = lowercase_only_config
        and co = no_collaborators and server = None and rid = 1 and w = example_world]
  have np: "Providers lowercase_only_config = None"
    by (simp add: lowercase_only_config_def)
  have h: "Providers lowercase_only_config = None
           \<and> Router lowercase_only_config = Some example_router
           \<and> (\<forall>q n. \<not> configured (fst (consult_custom_router no_collaborators lowercase_only_config q n)))
           \<and> rewrite_system_prompt char_tokenizer no_collaborators lowercase_only_config
                (parse_session (fst (apply_overlay None 1 lowercase_only_config
                    (request_for ''openai,gpt-4'') example_world)))
               = Inr (request_for ''openai,gpt-4'', Arr [])"
    by (simp add: lowercase_only_config_def example_config_def consult_custom_router_def
        configured_def rewrite_system_prompt_def apply_overlay_def parse_session_def
        request_for_def)
  from rule np have a: "getUseModel char_tokenizer store_same_name (request_for ''openai,gpt-4'') 0
      lowercase_only_config None = Inl TypeError"
    by blast
  from rule h have "\<exists>e req'. snd (router char_tokenizer no_collaborators None 1 lowercase_only_config
                        (request_for ''openai,gpt-4'') example_world) =
                 Inr (req'\<lparr>log := log req' @ [RouterError e],
                           body := (body req')\<lparr>model := default_model example_router\<rparr>\<rparr>)"
    by blast
  then have b: "\<exists>e req'. snd (router char_tokenizer no_collaborators None 1 lowercase_only_config
                        (request_for ''openai,gpt-4'') example_world) =
                 Inr (req'\<lparr>log := log req' @ [RouterError e],
                           body := (body req')\<lparr>model := Some ''default-model''\<rparr>\<rparr>)"
    by (simp add: example_router_def)
  have run: "getUseModel char_tokenizer store_mixed_case (request_for ''openai,gpt-4'') 0
               example_config None
             = Inr (Some ''OpenAI,GPT-4'', request_for ''openai,gpt-4'')"
    by (simp add: getUseModel_def request_for_def compound_selector_def example_config_def
        store_mixed_case_def declared_provider_def toLowerCase_def lower_char_def bindE_def
        split.simps char_of_def bit_0)
  have differs: "Some ''OpenAI,GPT-4'' \<noteq> Some ''openai,gpt-4''" by simp
  from compound_selector_reads_Providers_only [OF 1 2,
      where rt = char_tokenizer and st = store_mixed_case and cfg = example_config
        and tokens = 0 and lastUsage = None] run differs
  have "\<exists>ps a n ms fm. Providers example_config = Some ps \<and> Some a \<in> set ps
         \<and> name (store_mixed_case a) = Some n \<and> models (store_mixed_case a) = Some ms
         \<and> fm \<in> set ms \<and> Some ''OpenAI,GPT-4'' = Some (n @ '','' @ fm)"
    by blast
  then have c: "\<exists>ps a n ms fm. Providers example_config = Some ps \<and> Some a \<in> set ps
         \<and> name (store_mixed_case a) = Some n \<and> models (store_mixed_case a) = Some ms
         \<and> fm \<in> set ms \<and> ''OpenAI,GPT-4'' = n @ '','' @ fm"
    by (simp only: option.inject)
  from a b run c show ?thesis by blast
qed

section \<open>Errors that leave the router\<close>

text \<open>
  Claim C1 (the code misses the claim).  The prompt file is read before the \<^verbatim>\<open>try\<close>
  begins (line 258 against line 262): when the file cannot be read, the exception
  leaves the router, nothing is logged and no default model is written.
\<close>

theorem router_unreadable_prompt_file:
  "snd (router char_tokenizer no_collaborators None 1 rewrite_config env_request example_world)
     = Inl IOError"
  by (simp add: router_def Let_def rewrite_config_def example_config_def env_request_def
      request_for_def two_segments_def apply_overlay_def parse_session_def
      rewrite_system_prompt_def no_collaborators_def bindE_def js_gt_def opt_prop_def)

end
